theory Spec2Isabelle
  imports Main
begin

section \<open>The command layer of chromabot (commands.py)\<close>

text \<open>
  The handlers of \<^verbatim>\<open>commands.py\<close> run against three collaborators: the database
  session (objects of \<^verbatim>\<open>db.py\<close>), the messaging platform (praw) and the clock.
  The session is a pair of database values, the committed one and the pending one the
  handler works on; the platform's answers are parameters of the context; every call
  that leaves the process is written to a log in the state.
\<close>

subsection \<open>Database objects\<close>

record region =
  region_id :: int
  region_name :: string
  srname :: string
  owner :: int
  adjacent :: "int list"
  region_markdown :: string

record user =
  user_name :: string
  team :: int
  leader :: bool
  loyalists :: int
  committed_loyalists :: int
  defectable :: bool
  user_region :: region

record battle =
  battle_id :: int
  battle_region :: region
  begins :: int
  lockout :: "int option"
  submission_id :: "string option"
  resolved :: bool

record movement_order =
  order_player :: string
  order_dest :: region
  order_amount :: int
  order_departure :: int
  order_arrival :: int

record skirmish_action =
  sk_id :: int
  sk_battle :: int
  sk_parent :: "int option"
  sk_participant :: string
  sk_amount :: int
  sk_troop_type :: string
  sk_hinder :: bool
  sk_comment_id :: "string option"

record processed =
  id36 :: string
  processed_battle :: int

record db =
  regions :: "region list"
  battles :: "battle list"
  skirmishes :: "skirmish_action list"
  orders :: "movement_order list"
  processed_log :: "processed list"
  player :: user

subsection \<open>Exceptions\<close>

datatype other = OtherBattle battle | OtherOrder movement_order | OtherSkirmish skirmish_action

datatype side = early | late

datatype exc =
    RankException
  | TeamException bool
  | NonAdjacentException
  | InProgressException other
  | InsufficientException int int
  | NotPresentException region
  | TimingException side
  | APIException
  | Timeout
  | OtherError

subsection \<open>Context and state\<close>

record comment =
  comment_name :: string
  comment_author :: "string option"
  parent_id :: string
  link_id :: string
  was_comment :: "bool option"

record thing =
  thing_name :: string
  thing_author :: "string option"
  thing_body :: string

record config =
  battle_delay :: int
  speed :: int
  battle_lockout :: "int option"
  username :: string

record Context =
  config :: config
  comment :: comment
  now :: int
  comment_reply :: "string \<Rightarrow> exc + string option"
  reddit_submit :: "string \<Rightarrow> string \<Rightarrow> string \<Rightarrow> exc + string option"
  reddit_get_info :: "string \<Rightarrow> exc + thing option"

record state =
  committed :: db
  pending :: db
  replies :: "string list"
  submissions :: "(string \<times> string \<times> string) list"
  fetches :: "string list"
  warnings :: "string list"
  commits :: nat

definition commit :: "state \<Rightarrow> state" where
  "commit s = s\<lparr>committed := pending s, commits := Suc (commits s)\<rparr>"

definition rollback :: "state \<Rightarrow> state" where
  "rollback s = s\<lparr>pending := committed s\<rparr>"

definition log_warning :: "string \<Rightarrow> state \<Rightarrow> state" where
  "log_warning msg s = s\<lparr>warnings := warnings s @ [msg]\<rparr>"

subsection \<open>The methods of db.py and utils.py the handlers call\<close>

text \<open>
  \<^verbatim>\<open>db.py\<close> and \<^verbatim>\<open>utils.py\<close> are not part of the sources at hand. Their
  methods are parameters of the handlers. A database operation reads the pending database
  (whose \<open>player\<close> is \<^verbatim>\<open>context.player\<close>) and either raises or returns its result with
  the updated pending database.
\<close>

record db_api =
  invade :: "db \<Rightarrow> region \<Rightarrow> int \<Rightarrow> exc + battle \<times> db"
  move :: "db \<Rightarrow> int \<Rightarrow> region \<Rightarrow> int \<Rightarrow> exc + movement_order option \<times> db"
  create_skirmish :: "db \<Rightarrow> battle \<Rightarrow> int \<Rightarrow> string \<Rightarrow> exc + skirmish_action \<times> db"
  react :: "db \<Rightarrow> skirmish_action \<Rightarrow> int \<Rightarrow> bool \<Rightarrow> string \<Rightarrow> exc + skirmish_action \<times> db"
  is_moving :: "db \<Rightarrow> movement_order option"
  get_root :: "db \<Rightarrow> skirmish_action \<Rightarrow> skirmish_action"
  get_battle :: "db \<Rightarrow> skirmish_action \<Rightarrow> battle"
  num_to_team :: "int \<Rightarrow> string"
  begins_str :: "battle \<Rightarrow> string"
  arrival_str :: "movement_order \<Rightarrow> string"
  other_markdown :: "other \<Rightarrow> string \<Rightarrow> string"

subsection \<open>failable, Context.reply, Context.submit\<close>

text \<open>
  A wrapped call returns a Python value, \<open>None\<close> or an object, or raises. The decorator
  turns the two exceptions of the platform into \<open>None\<close> with a warning and lets every
  other exception through.
\<close>

fun failable :: "(exc + 'a option) \<times> state \<Rightarrow> (exc + 'a option) \<times> state" where
  "failable (Inr v, s) = (Inr v, s)"
| "failable (Inl APIException, s) = (Inr None, log_warning ''Reddit API call failed!'' s)"
| "failable (Inl Timeout, s) = (Inr None, log_warning ''Socket timeout!'' s)"
| "failable (Inl e, s) = (Inl e, s)"

definition reply :: "Context \<Rightarrow> string \<Rightarrow> state \<Rightarrow> (exc + string option) \<times> state" where
  "reply ctx text s = failable (comment_reply ctx text, s\<lparr>replies := replies s @ [text]\<rparr>)"

definition submit :: "Context \<Rightarrow> string \<Rightarrow> string \<Rightarrow> string \<Rightarrow> state \<Rightarrow> (exc + string option) \<times> state" where
  "submit ctx sr title text s =
     failable (reddit_submit ctx sr title text,
               s\<lparr>submissions := submissions s @ [(sr, title, text)]\<rparr>)"

subsection \<open>Command.get_region\<close>

definition get_region :: "string \<Rightarrow> Context \<Rightarrow> bool \<Rightarrow> state \<Rightarrow> (exc + region option) \<times> state" where
  "get_region wh ctx require s =
     (let dest = (case find (\<lambda>r. region_name r = wh) (regions (pending s)) of
                    Some r \<Rightarrow> Some r
                  | None \<Rightarrow> find (\<lambda>r. srname r = wh) (regions (pending s)))
      in if require \<and> dest = None
         then (case reply ctx (''I don't know any region or subreddit named '' @ [CHR 0x27] @ wh @ [CHR 0x27]) s of
                 (Inl e, s') \<Rightarrow> (Inl e, s')
               | (Inr _, s') \<Rightarrow> (Inr dest, s'))
         else (Inr dest, s))"

subsection \<open>Formatting and parsing numbers, lower case\<close>

text \<open>
  \<^verbatim>\<open>"%d" % n\<close> is \<open>fmt_d\<close>; \<^verbatim>\<open>int(s)\<close> on a string of decimal digits, as a
  group \<^verbatim>\<open>(\d+)\<close> captures it, is \<open>int_of_digits\<close>. Strings are lists of bytes and a
  digit is one of the ten ASCII digits.
\<close>

definition is_digit :: "char \<Rightarrow> bool" where
  "is_digit c = (c \<in> set ''0123456789'')"

definition digit_char :: "nat \<Rightarrow> char" where
  "digit_char d = ''0123456789'' ! d"

definition digit_val :: "char \<Rightarrow> nat" where
  "digit_val c = of_char c - 48"

function digits_of :: "nat \<Rightarrow> string" where
  "digits_of n = (if n < 10 then [digit_char n] else digits_of (n div 10) @ [digit_char (n mod 10)])"
  by pat_completeness auto
termination
  by (relation "measure id") auto

declare digits_of.simps [simp del]

definition fmt_d :: "int \<Rightarrow> string" where
  "fmt_d i = (if i < 0 then CHR ''-'' # digits_of (nat (- i)) else digits_of (nat i))"

definition int_of_digits :: "string \<Rightarrow> int" where
  "int_of_digits ds = int (foldl (\<lambda>acc c. 10 * acc + digit_val c) 0 ds)"

definition is_space :: "char \<Rightarrow> bool" where
  "is_space c = (c \<in> set [CHR '' '', CHR 0x09, CHR 0x0A, CHR 0x0B, CHR 0x0C, CHR 0x0D])"

definition strip :: "string \<Rightarrow> string" where
  "strip s = rev (dropWhile is_space (rev (dropWhile is_space s)))"

text \<open>
  \<^verbatim>\<open>int(s)\<close> on a token: blanks around the number are dropped, one sign is allowed, the
  rest must be decimal digits; anything else raises ValueError, which no handler catches.
\<close>

definition py_int :: "string \<Rightarrow> exc + int" where
  "py_int s =
     (let t = strip s;
          ds = (case t of c # r \<Rightarrow> if c = CHR ''-'' \<or> c = CHR ''+'' then r else t | [] \<Rightarrow> t)
      in if ds \<noteq> [] \<and> list_all is_digit ds
         then Inr (if take 1 t = ''-'' then - int_of_digits ds else int_of_digits ds)
         else Inl OtherError)"

definition lower_char :: "char \<Rightarrow> char" where
  "lower_char c =
     (if 65 \<le> (of_char c :: nat) \<and> (of_char c :: nat) \<le> 90
      then char_of (of_char c + (32 :: nat)) else c)"

definition lower :: "string \<Rightarrow> string" where
  "lower s = map lower_char s"

subsection \<open>The two patterns of extract_subskirmish\<close>

text \<open>
  Both patterns are a literal, then \<^verbatim>\<open>(\d+)\<close>, then one literal character that is not a
  digit. Such a pattern matches at a position exactly when the literal is there, the
  longest run of digits after it is not empty, and the closing literal follows that
  run. \<^verbatim>\<open>search\<close> returns the leftmost match.
\<close>

definition match_at :: "string \<Rightarrow> string \<Rightarrow> string \<Rightarrow> int option" where
  "match_at pre post s =
     (if take (length pre) s = pre
      then (let rest = drop (length pre) s;
                ds = takeWhile is_digit rest;
                after = dropWhile is_digit rest
            in if ds \<noteq> [] \<and> take (length post) after = post
               then Some (int_of_digits ds) else None)
      else None)"

fun re_search :: "string \<Rightarrow> string \<Rightarrow> string \<Rightarrow> int option" where
  "re_search pre post [] = match_at pre post []"
| "re_search pre post (c # cs) =
     (case match_at pre post (c # cs) of
        Some n \<Rightarrow> Some n
      | None \<Rightarrow> re_search pre post cs)"

text \<open>
  What a pattern denotes: the text holds a marker at position \<open>k\<close> when the literal
  stands there, then the non-empty string of digits \<open>ds\<close>, then the closing literal.
\<close>

definition marker_at :: "string \<Rightarrow> string \<Rightarrow> string \<Rightarrow> nat \<Rightarrow> string \<Rightarrow> bool" where
  "marker_at pre post body k ds =
     (ds \<noteq> [] \<and> list_all is_digit ds
      \<and> take (length (pre @ ds @ post)) (drop k body) = pre @ ds @ post)"

definition search_subskirmish :: "string \<Rightarrow> int option" where
  "search_subskirmish body = re_search ''(subskirmish '' '')'' body"

definition search_skirmish :: "string \<Rightarrow> int option" where
  "search_skirmish body = re_search ''Skirmish #'' ''*'' body"

text \<open>
  Lines 414 to 424: the subskirmish pattern first, the skirmish pattern second, and
  \<open>None\<close> when neither matches.
\<close>

definition marker_id :: "string \<Rightarrow> int option" where
  "marker_id body =
     (case search_subskirmish body of
        Some n \<Rightarrow> Some n
      | None \<Rightarrow> (case search_skirmish body of Some n \<Rightarrow> Some n | None \<Rightarrow> None))"

subsection \<open>InvadeCommand\<close>

definition InvadeCommand_init :: "(string \<rightharpoonup> string) \<Rightarrow> exc + string" where
  "InvadeCommand_init tokens =
     (case tokens ''where'' of None \<Rightarrow> Inl OtherError | Some w \<Rightarrow> Inr (lower w))"

definition update_battle :: "battle \<Rightarrow> db \<Rightarrow> db" where
  "update_battle b d =
     d\<lparr>battles := map (\<lambda>x. if battle_id x = battle_id b then b else x) (battles d)\<rparr>"

text \<open>
  The \<^verbatim>\<open>try\<close> block of \<^verbatim>\<open>InvadeCommand.execute\<close>: the invasion, and, when
  \<^verbatim>\<open>battle_lockout\<close> is configured, the lockout written to the battle and a commit.
\<close>

definition invade_try :: "db_api \<Rightarrow> region \<Rightarrow> int \<Rightarrow> Context \<Rightarrow> state \<Rightarrow> (exc + battle) \<times> state" where
  "invade_try api dest bg ctx s =
     (case invade api (pending s) dest bg of
        Inl e \<Rightarrow> (Inl e, s)
      | Inr (b, d) \<Rightarrow>
          (case battle_lockout (config ctx) of
             None \<Rightarrow> (Inr b, s\<lparr>pending := d\<rparr>)
           | Some l \<Rightarrow>
               (let b' = b\<lparr>lockout := Some l\<rparr>
                in (Inr b', commit (s\<lparr>pending := update_battle b' d\<rparr>)))))"

text \<open>The \<^verbatim>\<open>except\<close> clauses: four exceptions are answered, every other one propagates.\<close>

definition invade_except :: "db_api \<Rightarrow> region \<Rightarrow> exc \<Rightarrow> Context \<Rightarrow> state \<Rightarrow> (exc + unit) \<times> state" where
  "invade_except api dest e ctx s =
     (let answer = (\<lambda>text. case reply ctx text s of
                               (Inl e', s') \<Rightarrow> (Inl e', s')
                             | (Inr _, s') \<Rightarrow> (Inr (), s'))
      in case e of
           RankException \<Rightarrow> answer ''You don't have the authority to invade a region!''
         | TeamException _ \<Rightarrow>
             answer (''You can't invade '' @ region_markdown dest @ '', you already own it!'')
         | NonAdjacentException \<Rightarrow>
             answer (region_markdown dest @ '' is not next to any territory you control'')
         | InProgressException oth \<Rightarrow>
             answer (region_markdown dest @ '' is '' @ other_markdown api oth ''already''
                     @ '' being invaded!'')
         | _ \<Rightarrow> (Inl e, s))"

definition invasion_title :: "db_api \<Rightarrow> int \<Rightarrow> string" where
  "invasion_title api tm = ''[Invasion] The '' @ num_to_team api tm @ '' armies march!''"

definition invasion_text :: "db_api \<Rightarrow> battle \<Rightarrow> string" where
  "invasion_text api b =
     ''Negotiations have broken down, and the trumpets of ''
     @ ''war have sounded.  Even now, civilians are being ''
     @ ''evacuated and the able-bodied drafted.  The conflict ''
     @ ''will soon be upon you.\<newline>\<newline>''
     @ ''Gather your forces while you can, for your enemy ''
     @ ''shall arrive at '' @ begins_str api b"

text \<open>The \<^verbatim>\<open>if battle:\<close> block: the confirmation, the thread, then commit or rollback.\<close>

definition invade_announce :: "db_api \<Rightarrow> region \<Rightarrow> battle \<Rightarrow> Context \<Rightarrow> state \<Rightarrow> (exc + unit) \<times> state" where
  "invade_announce api dest b ctx s =
     (case reply ctx (''**Confirmed**  Battle will begin at '' @ begins_str api b) s of
        (Inl e, s1) \<Rightarrow> (Inl e, s1)
      | (Inr _, s1) \<Rightarrow>
          (case submit ctx (srname dest) (invasion_title api (team (player (pending s1))))
                  (invasion_text api b) s1 of
             (Inl e, s2) \<Rightarrow> (Inl e, s2)
           | (Inr (Some name), s2) \<Rightarrow>
               (Inr (), commit (s2\<lparr>pending :=
                                  update_battle (b\<lparr>submission_id := Some name\<rparr>) (pending s2)\<rparr>))
           | (Inr None, s2) \<Rightarrow>
               (Inr (), rollback (log_warning ''Couldn't submit invasion thread'' s2))))"

definition InvadeCommand_execute :: "db_api \<Rightarrow> string \<Rightarrow> Context \<Rightarrow> state \<Rightarrow> (exc + unit) \<times> state" where
  "InvadeCommand_execute api wh ctx s =
     (case get_region wh ctx True s of
        (Inl e, s1) \<Rightarrow> (Inl e, s1)
      | (Inr None, s1) \<Rightarrow> (Inr (), s1)
      | (Inr (Some dest), s1) \<Rightarrow>
          (let begins = now ctx + battle_delay (config ctx)
           in case invade_try api dest begins ctx s1 of
                (Inl e, s2) \<Rightarrow> invade_except api dest e ctx s2
              | (Inr b, s2) \<Rightarrow> invade_announce api dest b ctx s2))"

subsection \<open>Region.invade\<close>

text \<open>
  Modelled from the spec: \<^verbatim>\<open>Region.invade\<close> of \<^verbatim>\<open>db.py\<close>, which is not among the
  sources. Section 4.1: it fails with RankException if the player's rank lacks invasion
  authority (read here as the leader flag), TeamException if the player's team already
  owns the region, NonAdjacentException if the player's current region is not adjacent to
  the target, InProgressException carrying the existing Battle if the target already has
  an unresolved Battle; on success it creates a Battle with the given begin time, no
  lockout and no announcement thread yet, and returns it.
\<close>

definition next_id :: "int list \<Rightarrow> int" where
  "next_id ids = fold max ids 0 + 1"

definition Region_invade :: "db \<Rightarrow> region \<Rightarrow> int \<Rightarrow> exc + battle \<times> db" where
  "Region_invade d r when =
     (let by_who = player d
      in if \<not> leader by_who then Inl RankException
         else if owner r = team by_who then Inl (TeamException False)
         else if region_id r \<notin> set (adjacent (user_region by_who)) then Inl NonAdjacentException
         else (case find (\<lambda>b. region_id (battle_region b) = region_id r \<and> \<not> resolved b)
                         (battles d) of
                 Some b \<Rightarrow> Inl (InProgressException (OtherBattle b))
               | None \<Rightarrow>
                   (let b = \<lparr>battle_id = next_id (map battle_id (battles d)),
                             battle_region = r, begins = when, lockout = None,
                             submission_id = None, resolved = False\<rparr>
                    in Inr (b, d\<lparr>battles := battles d @ [b]\<rparr>))))"

text \<open>The battle a successful \<open>Region_invade\<close> creates.\<close>

definition new_battle :: "db \<Rightarrow> region \<Rightarrow> int \<Rightarrow> battle" where
  "new_battle d r when =
     \<lparr>battle_id = next_id (map battle_id (battles d)), battle_region = r, begins = when,
      lockout = None, submission_id = None, resolved = False\<rparr>"

subsection \<open>MoveCommand\<close>

record move_command =
  mc_amount :: int
  mc_where :: string

definition MoveCommand_init :: "(string \<rightharpoonup> string) \<Rightarrow> exc + move_command" where
  "MoveCommand_init tokens =
     (case (case tokens ''amount'' of Some a \<Rightarrow> py_int a | None \<Rightarrow> Inr (- 1)) of
        Inl e \<Rightarrow> Inl e
      | Inr amount \<Rightarrow>
          (case tokens ''where'' of
             None \<Rightarrow> Inl OtherError
           | Some w \<Rightarrow> Inr \<lparr>mc_amount = amount, mc_where = lower w\<rparr>))"

text \<open>\<^verbatim>\<open>if self.amount == -1: self.amount = context.player.loyalists\<close>\<close>

definition decode_amount :: "int \<Rightarrow> db \<Rightarrow> int" where
  "decode_amount amount d = (if amount = - 1 then loyalists (player d) else amount)"

text \<open>
  The \<^verbatim>\<open>except\<close> clauses of \<^verbatim>\<open>MoveCommand.execute\<close>; each one replies and returns.
  \<^verbatim>\<open>hasattr(ipe.other, 'arrival_str')\<close> tells a movement order from a skirmish action;
  a battle has neither \<^verbatim>\<open>arrival_str\<close> nor \<^verbatim>\<open>get_battle\<close>, which is an AttributeError.
\<close>

definition move_except :: "db_api \<Rightarrow> string \<Rightarrow> region \<Rightarrow> exc \<Rightarrow> Context \<Rightarrow> state \<Rightarrow> (exc + unit) \<times> state" where
  "move_except api wh dest e ctx s =
     (let answer = (\<lambda>text. case reply ctx text s of
                               (Inl e', s') \<Rightarrow> (Inl e', s')
                             | (Inr _, s') \<Rightarrow> (Inr (), s'))
      in case e of
           InsufficientException requested available \<Rightarrow>
             answer (''You cannot move '' @ fmt_d requested
                     @ '' of your people - you only have '' @ fmt_d available)
         | NonAdjacentException \<Rightarrow>
             answer (''Your current region, '' @ region_markdown (user_region (player (pending s)))
                     @ '', is not adjacent to '' @ region_markdown dest)
         | InProgressException oth \<Rightarrow>
             (case oth of
                OtherOrder mo \<Rightarrow>
                  answer (''You are already leading your armies to ''
                          @ region_markdown (order_dest mo) @ '' - ''
                          @ ''you can give further orders upon your arrival at ''
                          @ arrival_str api mo)
              | OtherSkirmish sk \<Rightarrow>
                  answer (''You have committed your armies to the battle at ''
                          @ region_markdown (battle_region (get_battle api (pending s) sk))
                          @ '' - you must see this through to the bitter end.'')
              | OtherBattle b \<Rightarrow> (Inl OtherError, s))
         | TeamException _ \<Rightarrow>
             answer (wh @ '' is not friendly territory - invade first ''
                     @ ''if you want to go there'')
         | _ \<Rightarrow> (Inl e, s))"

text \<open>After the \<^verbatim>\<open>try\<close>: the flag, the confirmation, the commit.\<close>

definition move_confirm :: "db_api \<Rightarrow> int \<Rightarrow> region \<Rightarrow> movement_order option \<Rightarrow> db \<Rightarrow> Context \<Rightarrow> state \<Rightarrow> (exc + unit) \<times> state" where
  "move_confirm api amount dest order d ctx s =
     (let s1 = s\<lparr>pending := d\<lparr>player := (player d)\<lparr>defectable := False\<rparr>\<rparr>\<rparr>;
          text = (case order of
                    Some ord \<Rightarrow>
                      ''**Confirmed**: You are leading '' @ fmt_d amount
                      @ '' of your people to '' @ region_markdown dest @ ''. ''
                      @ ''You will arrive at '' @ arrival_str api ord @ ''.''
                  | None \<Rightarrow>
                      ''**Confirmed**: You have lead '' @ fmt_d amount
                      @ '' of your people to '' @ region_markdown dest @ ''.'')
      in case reply ctx text s1 of
           (Inl e, s2) \<Rightarrow> (Inl e, s2)
         | (Inr _, s2) \<Rightarrow> (Inr (), commit s2))"

definition move_outcome :: "db_api \<Rightarrow> string \<Rightarrow> int \<Rightarrow> region \<Rightarrow> Context \<Rightarrow> state \<Rightarrow> (exc + movement_order option \<times> db) \<Rightarrow> (exc + unit) \<times> state" where
  "move_outcome api wh amount dest ctx s r =
     (case r of
        Inl e \<Rightarrow> move_except api wh dest e ctx s
      | Inr (order, d) \<Rightarrow> move_confirm api amount dest order d ctx s)"

definition MoveCommand_execute :: "db_api \<Rightarrow> move_command \<Rightarrow> Context \<Rightarrow> state \<Rightarrow> (exc + unit) \<times> state" where
  "MoveCommand_execute api cmd ctx s =
     (case get_region (mc_where cmd) ctx True s of
        (Inl e, s1) \<Rightarrow> (Inl e, s1)
      | (Inr None, s1) \<Rightarrow> (Inr (), s1)
      | (Inr (Some dest), s1) \<Rightarrow>
          (let amount = decode_amount (mc_amount cmd) (pending s1);
               time_taken = speed (config ctx)
           in move_outcome api (mc_where cmd) amount dest ctx s1
                (move api (pending s1) amount dest time_taken)))"

subsection \<open>User.move\<close>

text \<open>
  Modelled from the spec: \<^verbatim>\<open>User.move\<close> of \<^verbatim>\<open>db.py\<close>, which is not among the
  sources. Section 4.2: the amount must not exceed the player's loyalists (else
  InsufficientException with requested and available); the destination must be adjacent to
  the player's current region (else NonAdjacentException) and owned by the player's team
  (else TeamException); the player must have no unresolved movement order and no
  unresolved top-level offensive commitment, else InProgressException carrying the
  blocking entity. A zero-transit move places the player at the destination and returns
  \<open>None\<close>; otherwise a movement order arriving after the transit time is created and
  returned. The defectable flag is written by the handler (line 197), not here.
\<close>

definition unresolved_root :: "db \<Rightarrow> skirmish_action \<Rightarrow> bool" where
  "unresolved_root d sk =
     (sk_participant sk = user_name (player d) \<and> sk_parent sk = None
      \<and> list_ex (\<lambda>b. battle_id b = sk_battle sk \<and> \<not> resolved b) (battles d))"

definition User_move :: "int \<Rightarrow> db \<Rightarrow> int \<Rightarrow> region \<Rightarrow> int \<Rightarrow> exc + movement_order option \<times> db" where
  "User_move t d amount dest transit =
     (let p = player d
      in if loyalists p < amount then Inl (InsufficientException amount (loyalists p))
         else if region_id dest \<notin> set (adjacent (user_region p)) then Inl NonAdjacentException
         else if owner dest \<noteq> team p then Inl (TeamException False)
         else (case find (\<lambda>mo. order_player mo = user_name p) (orders d) of
                 Some mo \<Rightarrow> Inl (InProgressException (OtherOrder mo))
               | None \<Rightarrow>
                   (case find (unresolved_root d) (skirmishes d) of
                      Some sk \<Rightarrow> Inl (InProgressException (OtherSkirmish sk))
                    | None \<Rightarrow>
                        if transit = 0
                        then Inr (None, d\<lparr>player := p\<lparr>user_region := dest\<rparr>\<rparr>)
                        else (let mo = \<lparr>order_player = user_name p, order_dest = dest,
                                        order_amount = amount, order_departure = t,
                                        order_arrival = t + transit\<rparr>
                              in Inr (Some mo, d\<lparr>orders := orders d @ [mo]\<rparr>)))))"

subsection \<open>SkirmishCommand\<close>

record skirmish_command =
  sc_action :: string
  sc_amount :: int
  sc_troop_type :: string

definition ALIASES :: "string \<rightharpoonup> string" where
  "ALIASES = [''calvalry'' \<mapsto> ''cavalry'', ''calvary'' \<mapsto> ''cavalry'', ''range'' \<mapsto> ''ranged'']"

definition aliases_get :: "string \<Rightarrow> string" where
  "aliases_get k = (case ALIASES k of Some v \<Rightarrow> v | None \<Rightarrow> k)"

definition SkirmishCommand_init :: "(string \<rightharpoonup> string) \<Rightarrow> exc + skirmish_command" where
  "SkirmishCommand_init tokens =
     (case tokens ''action'' of
        None \<Rightarrow> Inl OtherError
      | Some a \<Rightarrow>
          (let action = (if aliases_get a = ''oppose'' then ''attack'' else aliases_get a)
           in case tokens ''amount'' of
                None \<Rightarrow> Inl OtherError
              | Some n \<Rightarrow>
                  (case py_int n of
                     Inl e \<Rightarrow> Inl e
                   | Inr amount \<Rightarrow>
                       Inr \<lparr>sc_action = action, sc_amount = amount,
                            sc_troop_type = (case tokens ''troop_type'' of
                                               None \<Rightarrow> ''infantry''
                                             | Some t \<Rightarrow> aliases_get t)\<rparr>)))"

definition find_skirmish_named :: "string \<Rightarrow> state \<Rightarrow> skirmish_action option" where
  "find_skirmish_named name s = find (\<lambda>sk. sk_comment_id sk = Some name) (skirmishes (pending s))"

definition find_skirmish_by_id :: "int \<Rightarrow> state \<Rightarrow> skirmish_action option" where
  "find_skirmish_by_id skid s = find (\<lambda>sk. sk_id sk = skid) (skirmishes (pending s))"

text \<open>\<^verbatim>\<open>session.query(Processed).filter_by(id36=pid).count()\<close>\<close>

definition marker_count :: "string \<Rightarrow> db \<Rightarrow> nat" where
  "marker_count pid d = length (filter (\<lambda>p. id36 p = pid) (processed_log d))"

definition add_processed :: "processed \<Rightarrow> db \<Rightarrow> db" where
  "add_processed p d = d\<lparr>processed_log := processed_log d @ [p]\<rparr>"

text \<open>
  The body of \<^verbatim>\<open>extract_subskirmish\<close>, before the decorator. The call of
  \<^verbatim>\<open>get_info\<close> is written to the log of fetches.
\<close>

definition extract_subskirmish_body :: "Context \<Rightarrow> battle \<Rightarrow> state \<Rightarrow> (exc + int option) \<times> state" where
  "extract_subskirmish_body ctx btl s =
     (if comment_author (comment ctx) = None then (Inr None, s)
      else (let pid = parent_id (comment ctx);
                found = marker_count pid (pending s)
            in if found \<noteq> 0 then (Inr None, s)
               else (let s1 = s\<lparr>fetches := fetches s @ [pid]\<rparr>
                     in case reddit_get_info ctx pid of
                          Inl e \<Rightarrow> (Inl e, s1)
                        | Inr None \<Rightarrow> (Inr None, log_warning (''Can't get parent '' @ pid) s1)
                        | Inr (Some parent) \<Rightarrow>
                            (case thing_author parent of
                               None \<Rightarrow> (Inr None, s1)
                             | Some author \<Rightarrow>
                                 if author \<noteq> username (config ctx)
                                 then (Inr None,
                                       commit (s1\<lparr>pending :=
                                         add_processed \<lparr>id36 = thing_name parent,
                                                        processed_battle = battle_id btl\<rparr>
                                                       (pending s1)\<rparr>))
                                 else (Inr (marker_id (thing_body parent)), s1)))))"

definition extract_subskirmish :: "Context \<Rightarrow> battle \<Rightarrow> state \<Rightarrow> (exc + int option) \<times> state" where
  "extract_subskirmish ctx btl s = failable (extract_subskirmish_body ctx btl s)"

text \<open>
  Lines 322 to 332: the parent of a reaction. \<open>Inr None\<close> is the early return after the
  reply that no confirmed skirmish command was found; \<^verbatim>\<open>if sub:\<close> is false for
  \<open>None\<close> and for the number 0.
\<close>

definition find_parent :: "Context \<Rightarrow> battle \<Rightarrow> state \<Rightarrow> (exc + skirmish_action option) \<times> state" where
  "find_parent ctx current s =
     (case find_skirmish_named (parent_id (comment ctx)) s of
        Some parent \<Rightarrow> (Inr (Some parent), s)
      | None \<Rightarrow>
          (case extract_subskirmish ctx current s of
             (Inl e, s1) \<Rightarrow> (Inl e, s1)
           | (Inr sub, s1) \<Rightarrow>
               (case (case sub of
                        None \<Rightarrow> None
                      | Some n \<Rightarrow> if n \<noteq> 0 then find_skirmish_by_id n s1 else None) of
                  Some parent \<Rightarrow> (Inr (Some parent), s1)
                | None \<Rightarrow>
                    (case reply ctx (''You can only use skirmish commands in ''
                                     @ ''reply to other confirmed skirmish ''
                                     @ ''commands'') s1 of
                       (Inl e, s2) \<Rightarrow> (Inl e, s2)
                     | (Inr _, s2) \<Rightarrow> (Inr None, s2)))))"

text \<open>Lines 339 to 350: the text of the confirmation.\<close>

definition confirmation_text :: "db_api \<Rightarrow> db \<Rightarrow> skirmish_action \<Rightarrow> int \<Rightarrow> int \<Rightarrow> string" where
  "confirmation_text api d sk tot tm =
     (let subskirmish = (if sk_id (get_root api d sk) \<noteq> sk_id sk
                         then '' (subskirmish '' @ fmt_d (sk_id sk) @ '')'' else [])
      in ''**Confirmed**: You have committed '' @ fmt_d (sk_amount sk) @ '' of your ''
         @ ''forces as **'' @ sk_troop_type sk @ ''** to **Skirmish #''
         @ fmt_d (sk_id (get_root api d sk)) @ ''**'' @ subskirmish
         @ ''.\<newline>\<newline>As of now, you ''
         @ ''have committed '' @ fmt_d tot @ '' total.  **For '' @ num_to_team api tm @ ''!**'')"

definition update_skirmish :: "skirmish_action \<Rightarrow> db \<Rightarrow> db" where
  "update_skirmish sk d =
     d\<lparr>skirmishes := map (\<lambda>x. if sk_id x = sk_id sk then sk else x) (skirmishes d)\<rparr>"

text \<open>
  Lines 318 to 336: the new skirmish action, a root when the comment answers the battle
  post and a reaction otherwise. \<open>Inr None\<close> is the early return of \<open>find_parent\<close>.
\<close>

definition skirmish_action_for :: "db_api \<Rightarrow> skirmish_command \<Rightarrow> Context \<Rightarrow> battle \<Rightarrow> state \<Rightarrow> (exc + skirmish_action option) \<times> state" where
  "skirmish_action_for api cmd ctx current s =
     (if link_id (comment ctx) = parent_id (comment ctx)
      then (case create_skirmish api (pending s) current (sc_amount cmd) (sc_troop_type cmd) of
              Inl e \<Rightarrow> (Inl e, s)
            | Inr (sk, d) \<Rightarrow> (Inr (Some sk), s\<lparr>pending := d\<rparr>))
      else (case find_parent ctx current s of
              (Inl e, s1) \<Rightarrow> (Inl e, s1)
            | (Inr None, s1) \<Rightarrow> (Inr None, s1)
            | (Inr (Some parent), s1) \<Rightarrow>
                (case react api (pending s1) parent (sc_amount cmd)
                        (sc_action cmd = ''attack'') (sc_troop_type cmd) of
                   Inl e \<Rightarrow> (Inl e, s1)
                 | Inr (sk, d) \<Rightarrow> (Inr (Some sk), s1\<lparr>pending := d\<rparr>))))"

text \<open>The \<^verbatim>\<open>try\<close> block of \<^verbatim>\<open>SkirmishCommand.execute\<close>.\<close>

definition skirmish_try :: "db_api \<Rightarrow> skirmish_command \<Rightarrow> Context \<Rightarrow> battle \<Rightarrow> state \<Rightarrow> (exc + unit) \<times> state" where
  "skirmish_try api cmd ctx current s =
     (case skirmish_action_for api cmd ctx current s of
        (Inl e, s1) \<Rightarrow> (Inl e, s1)
      | (Inr None, s1) \<Rightarrow> (Inr (), s1)
      | (Inr (Some sk), s1) \<Rightarrow>
          (let tot = committed_loyalists (player (pending s1))
           in case reply ctx (confirmation_text api (pending s1) sk tot
                                (team (player (pending s1)))) s1 of
                (Inl e, s2) \<Rightarrow> (Inl e, s2)
              | (Inr _, s2) \<Rightarrow>
                  (Inr (), commit (s2\<lparr>pending :=
                     update_skirmish (sk\<lparr>sk_comment_id := Some (comment_name (comment ctx))\<rparr>)
                                     (pending s2)\<rparr>))))"

text \<open>The \<^verbatim>\<open>except\<close> clauses of \<^verbatim>\<open>SkirmishCommand.execute\<close>.\<close>

definition skirmish_except :: "db_api \<Rightarrow> battle \<Rightarrow> exc \<Rightarrow> Context \<Rightarrow> state \<Rightarrow> (exc + unit) \<times> state" where
  "skirmish_except api current e ctx s =
     (let answer = (\<lambda>text. case reply ctx text s of
                               (Inl e', s') \<Rightarrow> (Inl e', s')
                             | (Inr _, s') \<Rightarrow> (Inr (), s'))
      in case e of
           NotPresentException actually_am \<Rightarrow>
             answer (''Your armies are currently in '' @ region_markdown actually_am
                     @ '' and thus cannot participate in this battle.''
                     @ (case is_moving api (pending s) of
                          Some moving \<Rightarrow>
                            ''\<newline>\<newline>(Your forces will arrive in ''
                            @ region_markdown (order_dest moving) @ '' at ''
                            @ arrival_str api moving @ '' )''
                        | None \<Rightarrow> []))
         | TeamException friendly \<Rightarrow>
             (if friendly then answer ''You cannot attack someone on your team''
              else answer ''You cannot aid the enemy!'')
         | InProgressException _ \<Rightarrow>
             answer (''You can only spearhead one offensive per battle ''
                     @ ''(though you may still assist others)'')
         | InsufficientException requested available \<Rightarrow>
             (if requested \<le> 0 then answer ''You must use at least 1 troop!''
              else answer (''You don't have '' @ fmt_d requested @ '' troops to spare! ''
                           @ ''(you have committed ''
                           @ fmt_d (committed_loyalists (player (pending s))) @ '' total)''))
         | TimingException sd \<Rightarrow>
             (if sd = late
              then (case lockout current of
                      None \<Rightarrow> (Inl OtherError, s)
                    | Some l \<Rightarrow>
                        answer (''Top-level attacks are disallowed in the last ''
                                @ fmt_d l @ '' seconds of a battle''))
              else answer ''The battle has not yet begun!'')
         | _ \<Rightarrow> (Inl e, s))"

definition SkirmishCommand_execute :: "db_api \<Rightarrow> skirmish_command \<Rightarrow> Context \<Rightarrow> state \<Rightarrow> (exc + unit) \<times> state" where
  "SkirmishCommand_execute api cmd ctx s =
     (if \<not> (case was_comment (comment ctx) of None \<Rightarrow> True | Some v \<Rightarrow> v)
      then (case reply ctx (''You must enter your skirmish commands in the ''
                            @ ''appropriate battle post'') s of
              (Inl e, s1) \<Rightarrow> (Inl e, s1)
            | (Inr _, s1) \<Rightarrow> (Inr (), s1))
      else (case find (\<lambda>b. submission_id b = Some (link_id (comment ctx)))
                      (battles (pending s)) of
              None \<Rightarrow>
                (case reply ctx ''There's no battle happening here!'' s of
                   (Inl e, s1) \<Rightarrow> (Inl e, s1)
                 | (Inr _, s1) \<Rightarrow> (Inr (), s1))
            | Some current \<Rightarrow>
                (case skirmish_try api cmd ctx current s of
                   (Inl e, s1) \<Rightarrow> skirmish_except api current e ctx s1
                 | (Inr u, s1) \<Rightarrow> (Inr u, s1))))"

subsection \<open>A small world for the scenarios\<close>

text \<open>
  The scenario of the spec: region R1 of team 0 next to region R2 of team 1, and a leader
  of team 0 with 100 loyalists encamped in R1. The skirmish operations and the renderers
  of \<^verbatim>\<open>db.py\<close> are stood in for by the simplest functions of the right type.
\<close>

definition ex_r1 :: region where
  "ex_r1 = \<lparr>region_id = 1, region_name = ''r1'', srname = ''sub_r1'', owner = 0,
             adjacent = [2], region_markdown = ''[R1](/r/sub_r1)''\<rparr>"

definition ex_r2 :: region where
  "ex_r2 = \<lparr>region_id = 2, region_name = ''r2'', srname = ''sub_r2'', owner = 1,
             adjacent = [1], region_markdown = ''[R2](/r/sub_r2)''\<rparr>"

definition ex_r3 :: region where
  "ex_r3 = \<lparr>region_id = 3, region_name = ''r3'', srname = ''sub_r3'', owner = 0,
             adjacent = [1], region_markdown = ''[R3](/r/sub_r3)''\<rparr>"

definition ex_player :: user where
  "ex_player = \<lparr>user_name = ''p'', team = 0, leader = True, loyalists = 100,
                 committed_loyalists = 0, defectable = True, user_region = ex_r1\<rparr>"

definition ex_db :: db where
  "ex_db = \<lparr>regions = [ex_r1\<lparr>adjacent := [2, 3]\<rparr>, ex_r2, ex_r3], battles = [], skirmishes = [],
             orders = [], processed_log = [], player = ex_player\<lparr>user_region := ex_r1\<lparr>adjacent := [2, 3]\<rparr>\<rparr>\<rparr>"

definition ex_state :: "db \<Rightarrow> state" where
  "ex_state d = \<lparr>committed = d, pending = d, replies = [], submissions = [], fetches = [],
                  warnings = [], commits = 0\<rparr>"

definition ex_config :: config where
  "ex_config = \<lparr>battle_delay = 600, speed = 0, battle_lockout = None, username = ''chromabot''\<rparr>"

definition ex_comment :: comment where
  "ex_comment = \<lparr>comment_name = ''t1_c2'', comment_author = Some ''p'', parent_id = ''t1_c1'',
                  link_id = ''t3_b1'', was_comment = Some True\<rparr>"

definition ex_ctx :: Context where
  "ex_ctx = \<lparr>config = ex_config, comment = ex_comment, now = 1000,
              comment_reply = (\<lambda>text. Inr (Some ''t1_r'')),
              reddit_submit = (\<lambda>sr title text. Inr (Some ''t3_b1'')),
              reddit_get_info = (\<lambda>pid. Inr None)\<rparr>"

fun ex_root :: "nat \<Rightarrow> skirmish_action list \<Rightarrow> skirmish_action \<Rightarrow> skirmish_action" where
  "ex_root 0 sks sk = sk"
| "ex_root (Suc n) sks sk =
     (case sk_parent sk of
        None \<Rightarrow> sk
      | Some pid \<Rightarrow>
          (case find (\<lambda>x. sk_id x = pid) sks of None \<Rightarrow> sk | Some p \<Rightarrow> ex_root n sks p))"

definition ex_battle :: battle where
  "ex_battle = \<lparr>battle_id = 1, battle_region = ex_r2, begins = 1600, lockout = None,
                 submission_id = Some ''t3_b1'', resolved = False\<rparr>"

definition ex_api :: "int \<Rightarrow> db_api" where
  "ex_api t =
     \<lparr>invade = Region_invade,
      move = User_move t,
      create_skirmish = (\<lambda>d b amount troop_type. Inl (TimingException early)),
      react = (\<lambda>d parent amount hinder troop_type. Inl (TeamException hinder)),
      is_moving = (\<lambda>d. find (\<lambda>mo. order_player mo = user_name (player d)) (orders d)),
      get_root = (\<lambda>d sk. ex_root (length (skirmishes d)) (skirmishes d) sk),
      get_battle = (\<lambda>d sk. case find (\<lambda>b. battle_id b = sk_battle sk) (battles d) of
                              Some b \<Rightarrow> b | None \<Rightarrow> ex_battle),
      num_to_team = (\<lambda>n. if n = 0 then ''Orangered'' else ''Periwinkle''),
      begins_str = (\<lambda>b. fmt_d (begins b)),
      arrival_str = (\<lambda>mo. fmt_d (order_arrival mo)),
      other_markdown = (\<lambda>oth adverb. ''a region'')\<rparr>"

definition ex_order :: movement_order where
  "ex_order = \<lparr>order_player = ''p'', order_dest = ex_r3, order_amount = 50,
                order_departure = 900, order_arrival = 1900\<rparr>"

definition ex_db_marching :: db where
  "ex_db_marching = ex_db\<lparr>orders := [ex_order]\<rparr>"

definition ex_sk3 :: skirmish_action where
  "ex_sk3 = \<lparr>sk_id = 3, sk_battle = 1, sk_parent = None, sk_participant = ''q'', sk_amount = 30,
              sk_troop_type = ''infantry'', sk_hinder = True, sk_comment_id = Some ''t1_a''\<rparr>"

definition ex_sk7 :: skirmish_action where
  "ex_sk7 = \<lparr>sk_id = 7, sk_battle = 1, sk_parent = Some 3, sk_participant = ''p'', sk_amount = 10,
              sk_troop_type = ''cavalry'', sk_hinder = True, sk_comment_id = Some ''t1_b''\<rparr>"

definition ex_db_battle :: db where
  "ex_db_battle = ex_db\<lparr>battles := [ex_battle], skirmishes := [ex_sk3, ex_sk7]\<rparr>"

definition ex_own_reply :: thing where
  "ex_own_reply = \<lparr>thing_name = ''t1_c1'', thing_author = Some ''chromabot'',
                    thing_body = confirmation_text (ex_api 1000) ex_db_battle ex_sk7 10 0\<rparr>"

definition ex_deleted_reply :: thing where
  "ex_deleted_reply = \<lparr>thing_name = ''t1_c1'', thing_author = None, thing_body = ''[deleted]''\<rparr>"

definition ex_foreign_reply :: thing where
  "ex_foreign_reply = \<lparr>thing_name = ''t1_c1'', thing_author = Some ''bystander'',
                        thing_body = ''good luck''\<rparr>"

text \<open>
  A reaction that always succeeds, for the scenario of a confirmed reaction: the new
  skirmish action gets the next free id and the reacted one as its parent.
\<close>

definition ex_react :: "db \<Rightarrow> skirmish_action \<Rightarrow> int \<Rightarrow> bool \<Rightarrow> string \<Rightarrow> exc + skirmish_action \<times> db" where
  "ex_react d parent amount hinder troop_type =
     (let sk = \<lparr>sk_id = next_id (map sk_id (skirmishes d)), sk_battle = sk_battle parent,
                sk_parent = Some (sk_id parent), sk_participant = user_name (player d),
                sk_amount = amount, sk_troop_type = troop_type, sk_hinder = hinder,
                sk_comment_id = None\<rparr>
      in Inr (sk, d\<lparr>skirmishes := skirmishes d @ [sk]\<rparr>))"

definition ex_api_react :: db_api where
  "ex_api_react = (ex_api 1000)\<lparr>react := ex_react\<rparr>"

definition ex_cmd :: skirmish_command where
  "ex_cmd = \<lparr>sc_action = ''support'', sc_amount = 5, sc_troop_type = ''ranged''\<rparr>"

definition ex_sk8 :: skirmish_action where
  "ex_sk8 = \<lparr>sk_id = 8, sk_battle = 1, sk_parent = Some 7, sk_participant = ''p'', sk_amount = 5,
              sk_troop_type = ''ranged'', sk_hinder = False, sk_comment_id = None\<rparr>"

section \<open>Properties\<close>

subsection \<open>The messaging boundary\<close>

lemma failable_db [simp]:
  "committed (snd (failable (r, s))) = committed s"
  "pending (snd (failable (r, s))) = pending s"
  "commits (snd (failable (r, s))) = commits s"
  by (cases "(r, s)" rule: failable.cases; simp add: log_warning_def)+

lemma reply_db [simp]:
  "committed (snd (reply ctx text s)) = committed s"
  "pending (snd (reply ctx text s)) = pending s"
  "commits (snd (reply ctx text s)) = commits s"
  by (simp_all add: reply_def)

lemma submit_db [simp]:
  "committed (snd (submit ctx sr title text s)) = committed s"
  "pending (snd (submit ctx sr title text s)) = pending s"
  "commits (snd (submit ctx sr title text s)) = commits s"
  by (simp_all add: submit_def)



subsection \<open>Replies and the region lookup\<close>

lemma reply_logs [simp]:
  "replies (snd (reply ctx text s)) = replies s @ [text]"
  "fetches (snd (reply ctx text s)) = fetches s"
  "submissions (snd (reply ctx text s)) = submissions s"
  by (cases "(comment_reply ctx text, s\<lparr>replies := replies s @ [text]\<rparr>)" rule: failable.cases;
      simp add: reply_def log_warning_def)+

lemma snd_case_result [simp]:
  "snd (case r of (Inl e, s1) \<Rightarrow> (Inl e, s1) | (Inr v, s1) \<Rightarrow> (Inr (f v), s1)) = snd r"
  by (simp split: prod.splits sum.splits)

lemma get_region_found:
  assumes "fst (get_region wh ctx req s) = Inr (Some dest)"
  shows "get_region wh ctx req s = (Inr (Some dest), s)"
  using assms by (auto simp add: get_region_def Let_def split: if_splits prod.splits sum.splits option.splits)

subsection \<open>Skirmish commands sent as private messages\<close>

text \<open>
  Claim C10. A skirmish command whose message is not a comment (\<^verbatim>\<open>was_comment\<close> is
  false) is answered with the refusal and nothing else happens: the handler is the reply
  alone, whatever the database holds, so no battle is looked up, no skirmish action is
  created or changed, no troops are committed, nothing is fetched and nothing is
  committed.
\<close>

theorem skirmish_private_message_refused:
  assumes "was_comment (comment ctx) = Some False"
  shows "SkirmishCommand_execute api cmd ctx s =
           (case reply ctx (''You must enter your skirmish commands in the '' @ ''appropriate battle post'') s of
              (Inl e, s1) \<Rightarrow> (Inl e, s1)
            | (Inr v, s1) \<Rightarrow> (Inr (), s1))
         \<and> replies (snd (SkirmishCommand_execute api cmd ctx s)) =
             replies s @ [''You must enter your skirmish commands in the appropriate battle post'']
         \<and> pending (snd (SkirmishCommand_execute api cmd ctx s)) = pending s
         \<and> committed (snd (SkirmishCommand_execute api cmd ctx s)) = committed s
         \<and> commits (snd (SkirmishCommand_execute api cmd ctx s)) = commits s
         \<and> fetches (snd (SkirmishCommand_execute api cmd ctx s)) = fetches s"
proof -
  let ?t = "''You must enter your skirmish commands in the appropriate battle post''"
  have eq: "SkirmishCommand_execute api cmd ctx s =
           (case reply ctx ?t s of (Inl e, s1) \<Rightarrow> (Inl e, s1) | (Inr v, s1) \<Rightarrow> (Inr (), s1))"
    using assms by (simp add: SkirmishCommand_execute_def)
  show ?thesis by (simp add: eq)
qed


theorem skirmish_private_message_refused_witness:
  "was_comment (comment (ex_ctx\<lparr>comment := ex_comment\<lparr>was_comment := Some False\<rparr>\<rparr>)) = Some False
   \<and> replies (snd (SkirmishCommand_execute (ex_api 1000)
                      \<lparr>sc_action = ''attack'', sc_amount = 10, sc_troop_type = ''infantry''\<rparr>
                      (ex_ctx\<lparr>comment := ex_comment\<lparr>was_comment := Some False\<rparr>\<rparr>) (ex_state ex_db)))
       = [''You must enter your skirmish commands in the appropriate battle post'']
   \<and> commits (snd (SkirmishCommand_execute (ex_api 1000)
                      \<lparr>sc_action = ''attack'', sc_amount = 10, sc_troop_type = ''infantry''\<rparr>
                      (ex_ctx\<lparr>comment := ex_comment\<lparr>was_comment := Some False\<rparr>\<rparr>) (ex_state ex_db))) = 0"
  using skirmish_private_message_refused
          [of "ex_ctx\<lparr>comment := ex_comment\<lparr>was_comment := Some False\<rparr>\<rparr>" "ex_api 1000"
              "\<lparr>sc_action = ''attack'', sc_amount = 10, sc_troop_type = ''infantry''\<rparr>" "ex_state ex_db"]
  by (simp add: ex_ctx_def ex_comment_def ex_state_def)

subsection \<open>Move commands\<close>

lemma reply_result:
  assumes "reply ctx text s = (r, s')"
  shows "replies s' = replies s @ [text] \<and> pending s' = pending s \<and> committed s' = committed s
         \<and> commits s' = commits s \<and> fetches s' = fetches s \<and> submissions s' = submissions s"
proof -
  have "s' = snd (reply ctx text s)" using assms by simp
  then show ?thesis by simp
qed

lemma move_execute_found:
  assumes "fst (get_region (mc_where cmd) ctx True s) = Inr (Some dest)"
  shows "MoveCommand_execute api cmd ctx s =
           move_outcome api (mc_where cmd) (decode_amount (mc_amount cmd) (pending s)) dest ctx s
             (move api (pending s) (decode_amount (mc_amount cmd) (pending s)) dest (speed (config ctx)))"
  using get_region_found [OF assms] by (simp add: MoveCommand_execute_def Let_def)

text \<open>
  Claim C7. A move command parsed without an amount holds the sentinel \<open>-1\<close>; the
  handler decodes it to the player's loyalists before it calls the movement operation,
  so the move is attempted, and its outcome handled, with the amount equal to the
  loyalists of the player in the pending database at execution time.
\<close>

theorem move_without_amount_moves_everyone:
  assumes "tokens ''amount'' = None" and "tokens ''where'' = Some w"
  shows "MoveCommand_init tokens = Inr \<lparr>mc_amount = - 1, mc_where = lower w\<rparr>
         \<and> decode_amount (- 1) (pending s) = loyalists (player (pending s))
         \<and> (fst (get_region (lower w) ctx True s) = Inr (Some dest) \<longrightarrow>
              MoveCommand_execute api \<lparr>mc_amount = - 1, mc_where = lower w\<rparr> ctx s =
                move_outcome api (lower w) (loyalists (player (pending s))) dest ctx s
                  (move api (pending s) (loyalists (player (pending s))) dest (speed (config ctx))))"
  using assms
  by (auto simp add: MoveCommand_init_def decode_amount_def MoveCommand_execute_def Let_def
        dest!: get_region_found)

theorem move_without_amount_moves_everyone_witness:
  "[''where'' \<mapsto> ''R3''] ''amount'' = None
   \<and> MoveCommand_init [''where'' \<mapsto> ''R3''] = Inr \<lparr>mc_amount = - 1, mc_where = ''r3''\<rparr>
   \<and> fst (get_region ''r3'' ex_ctx True (ex_state ex_db)) = Inr (Some ex_r3)
   \<and> MoveCommand_execute (ex_api 1000) \<lparr>mc_amount = - 1, mc_where = ''r3''\<rparr> ex_ctx (ex_state ex_db) =
        move_outcome (ex_api 1000) ''r3'' 100 ex_r3 ex_ctx (ex_state ex_db)
          (User_move 1000 ex_db 100 ex_r3 0)"
proof -
  have a: "[''where'' \<mapsto> ''R3''] ''amount'' = None" by simp
  have b: "[''where'' \<mapsto> ''R3''] ''where'' = Some ''R3''" by simp
  have c: "lower ''R3'' = ''r3''" by code_simp
  have d: "fst (get_region ''r3'' ex_ctx True (ex_state ex_db)) = Inr (Some ex_r3)" by code_simp
  have e: "loyalists (player ex_db) = 100" by code_simp
  have f: "move (ex_api 1000) = User_move 1000" "pending (ex_state ex_db) = ex_db" "speed (config ex_ctx) = 0"
    by (simp_all add: ex_api_def ex_state_def ex_ctx_def ex_config_def)
  note th = move_without_amount_moves_everyone [OF a b, of "ex_state ex_db" ex_ctx ex_r3 "ex_api 1000"]
  show ?thesis
    using th [unfolded c f e] a d by blast
qed

text \<open>
  Claim C5. When the movement operation raises InProgressException the handler
  distinguishes the two blockers by what the exception carries: for a movement order the
  reply names the order's destination and its arrival time, for a skirmish action it
  names the region of the battle; the two replies are never the same text, and the
  session is left as it was.
\<close>

theorem move_in_progress_names_the_blocker:
  assumes found: "fst (get_region (mc_where cmd) ctx True s) = Inr (Some dest)"
      and fails: "move api (pending s) (decode_amount (mc_amount cmd) (pending s)) dest
                    (speed (config ctx)) = Inl (InProgressException oth)"
  shows "(\<forall>mo. oth = OtherOrder mo \<longrightarrow>
            replies (snd (MoveCommand_execute api cmd ctx s)) =
              replies s @ [''You are already leading your armies to ''
                           @ region_markdown (order_dest mo)
                           @ '' - you can give further orders upon your arrival at ''
                           @ arrival_str api mo])
       \<and> (\<forall>sk. oth = OtherSkirmish sk \<longrightarrow>
            replies (snd (MoveCommand_execute api cmd ctx s)) =
              replies s @ [''You have committed your armies to the battle at ''
                           @ region_markdown (battle_region (get_battle api (pending s) sk))
                           @ '' - you must see this through to the bitter end.''])
       \<and> (\<forall>x y. ''You are already leading your armies to '' @ x
                \<noteq> ''You have committed your armies to the battle at '' @ y)
       \<and> pending (snd (MoveCommand_execute api cmd ctx s)) = pending s
       \<and> committed (snd (MoveCommand_execute api cmd ctx s)) = committed s
       \<and> commits (snd (MoveCommand_execute api cmd ctx s)) = commits s"
  by (cases oth) (simp_all add: move_execute_found [OF found] fails move_outcome_def move_except_def)

theorem move_in_progress_names_the_blocker_witness:
  "fst (get_region ''r3'' ex_ctx True (ex_state ex_db_marching)) = Inr (Some ex_r3)
   \<and> User_move 1000 ex_db_marching 20 ex_r3 0 = Inl (InProgressException (OtherOrder ex_order))
   \<and> replies (snd (MoveCommand_execute (ex_api 1000) \<lparr>mc_amount = 20, mc_where = ''r3''\<rparr> ex_ctx
                      (ex_state ex_db_marching))) =
       [''You are already leading your armies to [R3](/r/sub_r3) - you can give further orders upon your arrival at 1900'']"
proof -
  have a: "fst (get_region (mc_where \<lparr>mc_amount = 20, mc_where = ''r3''\<rparr>) ex_ctx True (ex_state ex_db_marching))
             = Inr (Some ex_r3)" by code_simp
  have b: "move (ex_api 1000) (pending (ex_state ex_db_marching))
             (decode_amount (mc_amount \<lparr>mc_amount = 20, mc_where = ''r3''\<rparr>) (pending (ex_state ex_db_marching)))
             ex_r3 (speed (config ex_ctx)) = Inl (InProgressException (OtherOrder ex_order))" by code_simp
  have c: "User_move 1000 ex_db_marching 20 ex_r3 0 = Inl (InProgressException (OtherOrder ex_order))"
    by code_simp
  have d: "region_markdown (order_dest ex_order) = ''[R3](/r/sub_r3)''"
          "arrival_str (ex_api 1000) ex_order = ''1900''" "replies (ex_state ex_db_marching) = []"
    by code_simp+
  show ?thesis
    using move_in_progress_names_the_blocker [OF a b] a c by (simp add: d)
qed

text \<open>
  Claim C6. When the movement operation succeeds, with a movement order or with
  \<open>None\<close> for an immediate arrival, the handler sets the player's defectable flag to
  false, confirms with the text of that case, and commits unless the reply raised; when
  it raises one of the four typed failures the handler returns with the pending and the
  committed database and the commit count unchanged. The movement operation of the spec
  returns \<open>None\<close> for a zero transit time and the created order otherwise.
\<close>

theorem move_success_and_typed_failures:
  assumes found: "fst (get_region (mc_where cmd) ctx True s) = Inr (Some dest)"
  shows "(\<forall>ord d. move api (pending s) (decode_amount (mc_amount cmd) (pending s)) dest (speed (config ctx)) = Inr (ord, d) \<longrightarrow>
            pending (snd (MoveCommand_execute api cmd ctx s)) = d\<lparr>player := (player d)\<lparr>defectable := False\<rparr>\<rparr>
          \<and> defectable (player (pending (snd (MoveCommand_execute api cmd ctx s)))) = False
          \<and> replies (snd (MoveCommand_execute api cmd ctx s)) = replies s @
              [case ord of
                 Some mo \<Rightarrow> ''**Confirmed**: You are leading '' @ fmt_d (decode_amount (mc_amount cmd) (pending s))
                            @ '' of your people to '' @ region_markdown dest
                            @ ''. You will arrive at '' @ arrival_str api mo @ ''.''
               | None \<Rightarrow> ''**Confirmed**: You have lead '' @ fmt_d (decode_amount (mc_amount cmd) (pending s))
                         @ '' of your people to '' @ region_markdown dest @ ''.'']
          \<and> (fst (MoveCommand_execute api cmd ctx s) = Inr () \<longrightarrow>
                committed (snd (MoveCommand_execute api cmd ctx s)) = pending (snd (MoveCommand_execute api cmd ctx s)) \<and> commits (snd (MoveCommand_execute api cmd ctx s)) = Suc (commits s)))
       \<and> (\<forall>e. move api (pending s) (decode_amount (mc_amount cmd) (pending s)) dest (speed (config ctx)) = Inl e \<longrightarrow>
            ((\<exists>a b. e = InsufficientException a b) \<or> e = NonAdjacentException
             \<or> (\<exists>oth. e = InProgressException oth) \<or> (\<exists>f. e = TeamException f)) \<longrightarrow>
            pending (snd (MoveCommand_execute api cmd ctx s)) = pending s \<and> committed (snd (MoveCommand_execute api cmd ctx s)) = committed s
            \<and> commits (snd (MoveCommand_execute api cmd ctx s)) = commits s
            \<and> defectable (player (pending (snd (MoveCommand_execute api cmd ctx s)))) = defectable (player (pending s)))
       \<and> (\<forall>x d'. User_move t d0 a0 dest 0 = Inr (x, d') \<longrightarrow>
            x = None \<and> user_region (player d') = dest)
       \<and> (\<forall>x d'. transit \<noteq> 0 \<longrightarrow> User_move t d0 a0 dest transit = Inr (x, d') \<longrightarrow>
            (\<exists>mo. x = Some mo \<and> d' = d0\<lparr>orders := orders d0 @ [mo]\<rparr>
                   \<and> order_dest mo = dest \<and> order_arrival mo = t + transit))"
proof -
  have succ: "\<And>ord d. move api (pending s) (decode_amount (mc_amount cmd) (pending s)) dest (speed (config ctx)) = Inr (ord, d) \<Longrightarrow> MoveCommand_execute api cmd ctx s = move_confirm api (decode_amount (mc_amount cmd) (pending s)) dest ord d ctx s"
    by (simp add: move_execute_found [OF found] move_outcome_def)
  have fail: "\<And>e. move api (pending s) (decode_amount (mc_amount cmd) (pending s)) dest (speed (config ctx)) = Inl e \<Longrightarrow> MoveCommand_execute api cmd ctx s = move_except api (mc_where cmd) dest e ctx s"
    by (simp add: move_execute_found [OF found] move_outcome_def)
  have p1: "\<forall>ord d. move api (pending s) (decode_amount (mc_amount cmd) (pending s)) dest (speed (config ctx)) = Inr (ord, d) \<longrightarrow>
            pending (snd (MoveCommand_execute api cmd ctx s)) = d\<lparr>player := (player d)\<lparr>defectable := False\<rparr>\<rparr>
          \<and> defectable (player (pending (snd (MoveCommand_execute api cmd ctx s)))) = False
          \<and> replies (snd (MoveCommand_execute api cmd ctx s)) = replies s @
              [case ord of
                 Some mo \<Rightarrow> ''**Confirmed**: You are leading '' @ fmt_d (decode_amount (mc_amount cmd) (pending s))
                            @ '' of your people to '' @ region_markdown dest
                            @ ''. You will arrive at '' @ arrival_str api mo @ ''.''
               | None \<Rightarrow> ''**Confirmed**: You have lead '' @ fmt_d (decode_amount (mc_amount cmd) (pending s))
                         @ '' of your people to '' @ region_markdown dest @ ''.'']
          \<and> (fst (MoveCommand_execute api cmd ctx s) = Inr () \<longrightarrow>
                committed (snd (MoveCommand_execute api cmd ctx s)) = pending (snd (MoveCommand_execute api cmd ctx s)) \<and> commits (snd (MoveCommand_execute api cmd ctx s)) = Suc (commits s))"
    by (auto simp add: succ move_confirm_def Let_def commit_def split: prod.splits sum.splits option.splits
          dest!: reply_result)
  have p2: "\<forall>e. move api (pending s) (decode_amount (mc_amount cmd) (pending s)) dest (speed (config ctx)) = Inl e \<longrightarrow>
            ((\<exists>a b. e = InsufficientException a b) \<or> e = NonAdjacentException
             \<or> (\<exists>oth. e = InProgressException oth) \<or> (\<exists>f. e = TeamException f)) \<longrightarrow>
            pending (snd (MoveCommand_execute api cmd ctx s)) = pending s \<and> committed (snd (MoveCommand_execute api cmd ctx s)) = committed s
            \<and> commits (snd (MoveCommand_execute api cmd ctx s)) = commits s
            \<and> defectable (player (pending (snd (MoveCommand_execute api cmd ctx s)))) = defectable (player (pending s))"
    by (auto simp add: fail move_except_def Let_def split: other.splits)
  have p3: "\<forall>x d'. User_move t d0 a0 dest 0 = Inr (x, d') \<longrightarrow>
            x = None \<and> user_region (player d') = dest"
    by (auto simp add: User_move_def Let_def split: if_splits option.splits)
  have p4: "\<forall>x d'. transit \<noteq> 0 \<longrightarrow> User_move t d0 a0 dest transit = Inr (x, d') \<longrightarrow>
            (\<exists>mo. x = Some mo \<and> d' = d0\<lparr>orders := orders d0 @ [mo]\<rparr>
                   \<and> order_dest mo = dest \<and> order_arrival mo = t + transit)"
    by (auto simp add: User_move_def Let_def split: if_splits option.splits)
  show ?thesis using p1 p2 p3 p4 by blast
qed

theorem move_success_and_typed_failures_witness:
  "fst (get_region ''r3'' ex_ctx True (ex_state ex_db)) = Inr (Some ex_r3)
   \<and> User_move 1000 ex_db 50 ex_r3 0 = Inr (None, ex_db\<lparr>player := (player ex_db)\<lparr>user_region := ex_r3\<rparr>\<rparr>)
   \<and> defectable (player (pending (snd (MoveCommand_execute (ex_api 1000)
         \<lparr>mc_amount = 50, mc_where = ''r3''\<rparr> ex_ctx (ex_state ex_db))))) = False
   \<and> commits (snd (MoveCommand_execute (ex_api 1000)
         \<lparr>mc_amount = 50, mc_where = ''r3''\<rparr> ex_ctx (ex_state ex_db))) = 1
   \<and> User_move 1000 ex_db 500 ex_r3 0 = Inl (InsufficientException 500 100)
   \<and> commits (snd (MoveCommand_execute (ex_api 1000)
         \<lparr>mc_amount = 500, mc_where = ''r3''\<rparr> ex_ctx (ex_state ex_db))) = 0
   \<and> defectable (player (pending (snd (MoveCommand_execute (ex_api 1000)
         \<lparr>mc_amount = 500, mc_where = ''r3''\<rparr> ex_ctx (ex_state ex_db))))) = True"
proof -
  let ?ok = "\<lparr>mc_amount = 50, mc_where = ''r3''\<rparr>"
  let ?bad = "\<lparr>mc_amount = 500, mc_where = ''r3''\<rparr>"
  let ?s = "ex_state ex_db"
  have f1: "fst (get_region (mc_where ?ok) ex_ctx True ?s) = Inr (Some ex_r3)" by code_simp
  have f2: "fst (get_region (mc_where ?bad) ex_ctx True ?s) = Inr (Some ex_r3)" by code_simp
  have g: "fst (get_region ''r3'' ex_ctx True ?s) = Inr (Some ex_r3)" by code_simp
  have m1: "move (ex_api 1000) (pending ?s) (decode_amount (mc_amount ?ok) (pending ?s)) ex_r3
              (speed (config ex_ctx)) = Inr (None, ex_db\<lparr>player := (player ex_db)\<lparr>user_region := ex_r3\<rparr>\<rparr>)"
    by code_simp
  have m2: "move (ex_api 1000) (pending ?s) (decode_amount (mc_amount ?bad) (pending ?s)) ex_r3
              (speed (config ex_ctx)) = Inl (InsufficientException 500 100)"
    by code_simp
  have u1: "User_move 1000 ex_db 50 ex_r3 0 = Inr (None, ex_db\<lparr>player := (player ex_db)\<lparr>user_region := ex_r3\<rparr>\<rparr>)"
    by code_simp
  have u2: "User_move 1000 ex_db 500 ex_r3 0 = Inl (InsufficientException 500 100)" by code_simp
  have r1: "fst (MoveCommand_execute (ex_api 1000) ?ok ex_ctx ?s) = Inr ()" by code_simp
  have c0: "commits ?s = 0" "defectable (player (pending ?s)) = True" by code_simp+
  note ok = move_success_and_typed_failures [OF f1, of "ex_api 1000"]
  note bad = move_success_and_typed_failures [OF f2, of "ex_api 1000"]
  from ok m1 r1 c0 have a: "defectable (player (pending (snd (MoveCommand_execute (ex_api 1000) ?ok ex_ctx ?s)))) = False
      \<and> commits (snd (MoveCommand_execute (ex_api 1000) ?ok ex_ctx ?s)) = 1"
    by simp
  from bad m2 c0 have b: "commits (snd (MoveCommand_execute (ex_api 1000) ?bad ex_ctx ?s)) = 0
      \<and> defectable (player (pending (snd (MoveCommand_execute (ex_api 1000) ?bad ex_ctx ?s)))) = True"
    by simp
  show ?thesis using g u1 u2 a b by blast
qed

subsection \<open>Invade commands\<close>

lemma fold_max_ge: "(a::int) \<le> fold max ids a \<and> (\<forall>i\<in>set ids. i \<le> fold max ids a)"
proof (induction ids arbitrary: a)
  case Nil
  then show ?case by simp
next
  case (Cons x xs)
  have "max x a \<le> fold max xs (max x a)" using Cons.IH by blast
  moreover have "\<forall>i\<in>set xs. i \<le> fold max xs (max x a)" using Cons.IH by blast
  ultimately show ?case by auto
qed

lemma next_id_fresh: "i \<in> set ids \<Longrightarrow> i < next_id ids"
  using fold_max_ge [of 0 ids] by (auto simp add: next_id_def)

lemma update_battle_last:
  assumes "battle_id b' = battle_id b" and "\<forall>x\<in>set bs. battle_id x \<noteq> battle_id b"
  shows "update_battle b' (d\<lparr>battles := bs @ [b]\<rparr>) = d\<lparr>battles := bs @ [b']\<rparr>"
proof -
  have "map (\<lambda>x. if battle_id x = battle_id b' then b' else x) bs = bs"
    using assms by (induction bs) auto
  then show ?thesis using assms by (simp add: update_battle_def)
qed

lemma new_battle_fresh: "\<forall>x\<in>set (battles d). battle_id x \<noteq> battle_id (new_battle d r w)"
  using next_id_fresh [of _ "map battle_id (battles d)"] by (fastforce simp add: new_battle_def)

lemma Region_invade_success:
  assumes "leader (player d)" and "owner r \<noteq> team (player d)"
      and "region_id r \<in> set (adjacent (user_region (player d)))"
      and "find (\<lambda>b. region_id (battle_region b) = region_id r \<and> \<not> resolved b) (battles d) = None"
  shows "Region_invade d r when = Inr (new_battle d r when, d\<lparr>battles := battles d @ [new_battle d r when]\<rparr>)"
  using assms by (simp add: Region_invade_def Let_def new_battle_def)

lemma invade_try_success:
  assumes "invade api (pending s) dest bg = Inr (new_battle (pending s) dest bg,
             (pending s)\<lparr>battles := battles (pending s) @ [new_battle (pending s) dest bg]\<rparr>)"
  shows "fst (invade_try api dest bg ctx s) = Inr ((new_battle (pending s) dest bg)\<lparr>lockout := battle_lockout (config ctx)\<rparr>)
       \<and> pending (snd (invade_try api dest bg ctx s)) =
           (pending s)\<lparr>battles := battles (pending s)
              @ [(new_battle (pending s) dest bg)\<lparr>lockout := battle_lockout (config ctx)\<rparr>]\<rparr>
       \<and> (case battle_lockout (config ctx) of
             None \<Rightarrow> committed (snd (invade_try api dest bg ctx s)) = committed s
                     \<and> commits (snd (invade_try api dest bg ctx s)) = commits s
           | Some l \<Rightarrow> committed (snd (invade_try api dest bg ctx s)) = pending (snd (invade_try api dest bg ctx s))
                     \<and> commits (snd (invade_try api dest bg ctx s)) = Suc (commits s))
       \<and> replies (snd (invade_try api dest bg ctx s)) = replies s"
proof (cases "battle_lockout (config ctx)")
  case None
  have "(new_battle (pending s) dest bg)\<lparr>lockout := None\<rparr> = new_battle (pending s) dest bg"
    by (simp add: new_battle_def)
  then show ?thesis using assms None by (simp add: invade_try_def)
next
  case (Some l)
  have u: "update_battle ((new_battle (pending s) dest bg)\<lparr>lockout := Some l\<rparr>)
             ((pending s)\<lparr>battles := battles (pending s) @ [new_battle (pending s) dest bg]\<rparr>)
           = (pending s)\<lparr>battles := battles (pending s) @ [(new_battle (pending s) dest bg)\<lparr>lockout := Some l\<rparr>]\<rparr>"
    by (rule update_battle_last) (use new_battle_fresh in simp_all)
  show ?thesis using assms Some by (simp add: invade_try_def Let_def u commit_def)
qed

lemma reply_no_raise:
  assumes "\<forall>e. comment_reply ctx text = Inl e \<longrightarrow> e = APIException \<or> e = Timeout"
  shows "\<exists>v. fst (reply ctx text s) = Inr v"
proof (cases "comment_reply ctx text")
  case (Inl e)
  then show ?thesis using assms by (auto simp add: reply_def)
next
  case (Inr v)
  then show ?thesis by (simp add: reply_def)
qed

lemma submit_result:
  assumes "submit ctx sr title text s = (r, s')"
  shows "pending s' = pending s \<and> committed s' = committed s \<and> commits s' = commits s
         \<and> replies s' = replies s \<and> submissions s' = submissions s @ [(sr, title, text)]"
proof -
  have "s' = snd (submit ctx sr title text s)" using assms by simp
  moreover have "replies (snd (submit ctx sr title text s)) = replies s
     \<and> submissions (snd (submit ctx sr title text s)) = submissions s @ [(sr, title, text)]"
    by (cases "(reddit_submit ctx sr title text, s\<lparr>submissions := submissions s @ [(sr, title, text)]\<rparr>)"
          rule: failable.cases; simp add: submit_def log_warning_def)
  ultimately show ?thesis by simp
qed

lemma submit_fst:
  "fst (submit ctx sr title text s) =
     (case reddit_submit ctx sr title text of
        Inr v \<Rightarrow> Inr v
      | Inl e \<Rightarrow> if e = APIException \<or> e = Timeout then Inr None else Inl e)"
  by (cases "(reddit_submit ctx sr title text, s\<lparr>submissions := submissions s @ [(sr, title, text)]\<rparr>)"
        rule: failable.cases; simp add: submit_def)

text \<open>The announcement of a battle that sits last in the pending database.\<close>

lemma invade_announce_effect:
  assumes last: "pending s = d\<lparr>battles := bs @ [b]\<rparr>"
      and fresh: "\<forall>x\<in>set bs. battle_id x \<noteq> battle_id b"
      and quiet: "\<forall>t e. comment_reply ctx t = Inl e \<longrightarrow> e = APIException \<or> e = Timeout"
  shows "(\<forall>name. reddit_submit ctx (srname dest) (invasion_title api (team (player (pending s))))
                    (invasion_text api b) = Inr (Some name) \<longrightarrow>
            fst (invade_announce api dest b ctx s) = Inr ()
          \<and> pending (snd (invade_announce api dest b ctx s)) = d\<lparr>battles := bs @ [b\<lparr>submission_id := Some name\<rparr>]\<rparr>
          \<and> committed (snd (invade_announce api dest b ctx s)) = d\<lparr>battles := bs @ [b\<lparr>submission_id := Some name\<rparr>]\<rparr>)
       \<and> (fst (submit ctx (srname dest) (invasion_title api (team (player (pending s))))
                    (invasion_text api b) s') = Inr None \<longrightarrow>
            fst (invade_announce api dest b ctx s) = Inr ()
          \<and> pending (snd (invade_announce api dest b ctx s)) = committed s
          \<and> committed (snd (invade_announce api dest b ctx s)) = committed s
          \<and> commits (snd (invade_announce api dest b ctx s)) = commits s)"
proof -
  let ?t = "''**Confirmed**  Battle will begin at '' @ begins_str api b"
  obtain r1 s1 where rp: "reply ctx ?t s = (r1, s1)" by (cases "reply ctx ?t s")
  obtain v where r1: "r1 = Inr v" using reply_no_raise [of ctx ?t s] quiet rp by auto
  note db1 = reply_result [OF rp]
  let ?title = "invasion_title api (team (player (pending s)))"
  obtain r2 s2 where sb: "submit ctx (srname dest) ?title (invasion_text api b) s1 = (r2, s2)"
    by (cases "submit ctx (srname dest) ?title (invasion_text api b) s1")
  note db2 = submit_result [OF sb]
  have r2: "r2 = fst (submit ctx (srname dest) ?title (invasion_text api b) s')"
    using sb submit_fst [of ctx "srname dest" ?title "invasion_text api b" s1]
          submit_fst [of ctx "srname dest" ?title "invasion_text api b" s'] by simp
  have ann: "invade_announce api dest b ctx s =
               (case r2 of
                  Inl e \<Rightarrow> (Inl e, s2)
                | Inr (Some name) \<Rightarrow>
                    (Inr (), commit (s2\<lparr>pending := update_battle (b\<lparr>submission_id := Some name\<rparr>) (pending s2)\<rparr>))
                | Inr None \<Rightarrow> (Inr (), rollback (log_warning ''Couldn't submit invasion thread'' s2)))"
    using rp r1 sb db1 by (simp add: invade_announce_def)
  have upd: "\<And>name. update_battle (b\<lparr>submission_id := Some name\<rparr>) (pending s2)
                = d\<lparr>battles := bs @ [b\<lparr>submission_id := Some name\<rparr>]\<rparr>"
  proof -
    fix name
    have "pending s2 = d\<lparr>battles := bs @ [b]\<rparr>" using db1 db2 last by simp
    then show "update_battle (b\<lparr>submission_id := Some name\<rparr>) (pending s2)
                = d\<lparr>battles := bs @ [b\<lparr>submission_id := Some name\<rparr>]\<rparr>"
      using update_battle_last [of "b\<lparr>submission_id := Some name\<rparr>" b bs d] fresh by simp
  qed
  have ok: "\<forall>name. reddit_submit ctx (srname dest) ?title (invasion_text api b) = Inr (Some name) \<longrightarrow>
            fst (invade_announce api dest b ctx s) = Inr ()
          \<and> pending (snd (invade_announce api dest b ctx s)) = d\<lparr>battles := bs @ [b\<lparr>submission_id := Some name\<rparr>]\<rparr>
          \<and> committed (snd (invade_announce api dest b ctx s)) = d\<lparr>battles := bs @ [b\<lparr>submission_id := Some name\<rparr>]\<rparr>"
  proof (intro allI impI)
    fix name
    assume "reddit_submit ctx (srname dest) ?title (invasion_text api b) = Inr (Some name)"
    then have "r2 = Inr (Some name)" using r2 by (simp add: submit_fst)
    then show "fst (invade_announce api dest b ctx s) = Inr ()
          \<and> pending (snd (invade_announce api dest b ctx s)) = d\<lparr>battles := bs @ [b\<lparr>submission_id := Some name\<rparr>]\<rparr>
          \<and> committed (snd (invade_announce api dest b ctx s)) = d\<lparr>battles := bs @ [b\<lparr>submission_id := Some name\<rparr>]\<rparr>"
      by (simp add: ann upd commit_def)
  qed
  have ko: "fst (submit ctx (srname dest) ?title (invasion_text api b) s') = Inr None \<longrightarrow>
            fst (invade_announce api dest b ctx s) = Inr ()
          \<and> pending (snd (invade_announce api dest b ctx s)) = committed s
          \<and> committed (snd (invade_announce api dest b ctx s)) = committed s
          \<and> commits (snd (invade_announce api dest b ctx s)) = commits s"
    using r2 db1 db2 by (simp add: ann rollback_def log_warning_def)
  show ?thesis using ok ko by blast
qed

lemma invade_execute_success:
  assumes found: "fst (get_region wh ctx True s) = Inr (Some dest)"
      and api: "invade api = Region_invade"
      and rank: "leader (player (pending s))"
      and enemy: "owner dest \<noteq> team (player (pending s))"
      and adj: "region_id dest \<in> set (adjacent (user_region (player (pending s))))"
      and free: "find (\<lambda>b. region_id (battle_region b) = region_id dest \<and> \<not> resolved b)
                   (battles (pending s)) = None"
  shows "fst (invade_try api dest (now ctx + battle_delay (config ctx)) ctx s) = Inr ((new_battle (pending s) dest (now ctx + battle_delay (config ctx)))\<lparr>lockout := battle_lockout (config ctx)\<rparr>)"
    and "pending (snd (invade_try api dest (now ctx + battle_delay (config ctx)) ctx s)) = (pending s)\<lparr>battles := battles (pending s) @ [(new_battle (pending s) dest (now ctx + battle_delay (config ctx)))\<lparr>lockout := battle_lockout (config ctx)\<rparr>]\<rparr>"
    and "InvadeCommand_execute api wh ctx s = invade_announce api dest ((new_battle (pending s) dest (now ctx + battle_delay (config ctx)))\<lparr>lockout := battle_lockout (config ctx)\<rparr>) ctx (snd (invade_try api dest (now ctx + battle_delay (config ctx)) ctx s))"
    and "case battle_lockout (config ctx) of
           None \<Rightarrow> committed (snd (invade_try api dest (now ctx + battle_delay (config ctx)) ctx s)) = committed s \<and> commits (snd (invade_try api dest (now ctx + battle_delay (config ctx)) ctx s)) = commits s
         | Some l \<Rightarrow> committed (snd (invade_try api dest (now ctx + battle_delay (config ctx)) ctx s)) = pending (snd (invade_try api dest (now ctx + battle_delay (config ctx)) ctx s)) \<and> commits (snd (invade_try api dest (now ctx + battle_delay (config ctx)) ctx s)) = Suc (commits s)"
proof -
  have inv: "invade api (pending s) dest (now ctx + battle_delay (config ctx)) =
               Inr (new_battle (pending s) dest (now ctx + battle_delay (config ctx)),
                    (pending s)\<lparr>battles := battles (pending s)
                       @ [new_battle (pending s) dest (now ctx + battle_delay (config ctx))]\<rparr>)"
    unfolding api by (rule Region_invade_success [OF rank enemy adj free])
  note tr = invade_try_success [OF inv, of ctx]
  show a: "fst (invade_try api dest (now ctx + battle_delay (config ctx)) ctx s) = Inr ((new_battle (pending s) dest (now ctx + battle_delay (config ctx)))\<lparr>lockout := battle_lockout (config ctx)\<rparr>)" using tr by blast
  show "pending (snd (invade_try api dest (now ctx + battle_delay (config ctx)) ctx s)) = (pending s)\<lparr>battles := battles (pending s) @ [(new_battle (pending s) dest (now ctx + battle_delay (config ctx)))\<lparr>lockout := battle_lockout (config ctx)\<rparr>]\<rparr>" using tr by blast
  show "case battle_lockout (config ctx) of
           None \<Rightarrow> committed (snd (invade_try api dest (now ctx + battle_delay (config ctx)) ctx s)) = committed s \<and> commits (snd (invade_try api dest (now ctx + battle_delay (config ctx)) ctx s)) = commits s
         | Some l \<Rightarrow> committed (snd (invade_try api dest (now ctx + battle_delay (config ctx)) ctx s)) = pending (snd (invade_try api dest (now ctx + battle_delay (config ctx)) ctx s)) \<and> commits (snd (invade_try api dest (now ctx + battle_delay (config ctx)) ctx s)) = Suc (commits s)"
    using tr by blast
  obtain s2 where s2: "invade_try api dest (now ctx + battle_delay (config ctx)) ctx s = (Inr ((new_battle (pending s) dest (now ctx + battle_delay (config ctx)))\<lparr>lockout := battle_lockout (config ctx)\<rparr>), s2)" using a by (cases "invade_try api dest (now ctx + battle_delay (config ctx)) ctx s") simp
  show "InvadeCommand_execute api wh ctx s = invade_announce api dest ((new_battle (pending s) dest (now ctx + battle_delay (config ctx)))\<lparr>lockout := battle_lockout (config ctx)\<rparr>) ctx (snd (invade_try api dest (now ctx + battle_delay (config ctx)) ctx s))"
    using get_region_found [OF found] s2 by (simp add: InvadeCommand_execute_def Let_def)
qed

text \<open>
  Claim C9. For an invade command on a known region the invasion is called with the
  begin time \<open>now + battle_delay\<close>. When the invasion is valid the battle of the
  \<^verbatim>\<open>try\<close> block has that begin time, the region invaded and the resolved flag false, and
  once the thread is submitted the committed battles are the former ones followed by
  this battle with the thread's name as its submission id.
\<close>

theorem invade_begins_after_delay:
  assumes found: "fst (get_region wh ctx True s) = Inr (Some dest)"
      and api: "invade api = Region_invade"
      and rank: "leader (player (pending s))"
      and enemy: "owner dest \<noteq> team (player (pending s))"
      and adj: "region_id dest \<in> set (adjacent (user_region (player (pending s))))"
      and free: "find (\<lambda>b. region_id (battle_region b) = region_id dest \<and> \<not> resolved b)
                   (battles (pending s)) = None"
      and quiet: "\<forall>t e. comment_reply ctx t = Inl e \<longrightarrow> e = APIException \<or> e = Timeout"
  shows "fst (invade_try api dest (now ctx + battle_delay (config ctx)) ctx s) = Inr ((new_battle (pending s) dest (now ctx + battle_delay (config ctx)))\<lparr>lockout := battle_lockout (config ctx)\<rparr>)
       \<and> battle_region ((new_battle (pending s) dest (now ctx + battle_delay (config ctx)))\<lparr>lockout := battle_lockout (config ctx)\<rparr>) = dest \<and> begins ((new_battle (pending s) dest (now ctx + battle_delay (config ctx)))\<lparr>lockout := battle_lockout (config ctx)\<rparr>) = now ctx + battle_delay (config ctx)
       \<and> \<not> resolved ((new_battle (pending s) dest (now ctx + battle_delay (config ctx)))\<lparr>lockout := battle_lockout (config ctx)\<rparr>)
       \<and> (\<forall>name. reddit_submit ctx (srname dest) (invasion_title api (team (player (pending s))))
                    (invasion_text api ((new_battle (pending s) dest (now ctx + battle_delay (config ctx)))\<lparr>lockout := battle_lockout (config ctx)\<rparr>)) = Inr (Some name) \<longrightarrow>
            fst (InvadeCommand_execute api wh ctx s) = Inr ()
          \<and> battles (committed (snd (InvadeCommand_execute api wh ctx s))) =
              battles (pending s) @ [((new_battle (pending s) dest (now ctx + battle_delay (config ctx)))\<lparr>lockout := battle_lockout (config ctx)\<rparr>)\<lparr>submission_id := Some name\<rparr>])"
proof -
  note ex = invade_execute_success [OF found api rank enemy adj free]
  have fresh: "\<forall>x\<in>set (battles (pending s)). battle_id x \<noteq> battle_id ((new_battle (pending s) dest (now ctx + battle_delay (config ctx)))\<lparr>lockout := battle_lockout (config ctx)\<rparr>)"
    using new_battle_fresh [of "pending s" dest "now ctx + battle_delay (config ctx)"] by simp
  have tm: "team (player (pending (snd (invade_try api dest (now ctx + battle_delay (config ctx)) ctx s)))) = team (player (pending s))"
    by (simp add: ex(2))
  note ann = invade_announce_effect [OF ex(2) fresh quiet, of dest api, unfolded tm]
  have flds: "battle_region ((new_battle (pending s) dest (now ctx + battle_delay (config ctx)))\<lparr>lockout := battle_lockout (config ctx)\<rparr>) = dest \<and> begins ((new_battle (pending s) dest (now ctx + battle_delay (config ctx)))\<lparr>lockout := battle_lockout (config ctx)\<rparr>) = now ctx + battle_delay (config ctx) \<and> \<not> resolved ((new_battle (pending s) dest (now ctx + battle_delay (config ctx)))\<lparr>lockout := battle_lockout (config ctx)\<rparr>)"
    by (simp add: new_battle_def)
  have "\<forall>name. reddit_submit ctx (srname dest) (invasion_title api (team (player (pending s))))
                    (invasion_text api ((new_battle (pending s) dest (now ctx + battle_delay (config ctx)))\<lparr>lockout := battle_lockout (config ctx)\<rparr>)) = Inr (Some name) \<longrightarrow>
            fst (InvadeCommand_execute api wh ctx s) = Inr ()
          \<and> battles (committed (snd (InvadeCommand_execute api wh ctx s))) =
              battles (pending s) @ [((new_battle (pending s) dest (now ctx + battle_delay (config ctx)))\<lparr>lockout := battle_lockout (config ctx)\<rparr>)\<lparr>submission_id := Some name\<rparr>]"
    using ann by (simp add: ex(3))
  then show ?thesis using ex(1) flds by blast
qed

theorem invade_begins_after_delay_witness:
  "fst (get_region ''r2'' ex_ctx True (ex_state ex_db)) = Inr (Some ex_r2)
   \<and> now ex_ctx = 1000 \<and> battle_delay (config ex_ctx) = 600
   \<and> fst (InvadeCommand_execute (ex_api 1000) ''r2'' ex_ctx (ex_state ex_db)) = Inr ()
   \<and> battles (committed (snd (InvadeCommand_execute (ex_api 1000) ''r2'' ex_ctx (ex_state ex_db)))) =
       [\<lparr>battle_id = 1, battle_region = ex_r2, begins = 1600, lockout = None,
         submission_id = Some ''t3_b1'', resolved = False\<rparr>]"
proof -
  let ?s = "ex_state ex_db"
  have found: "fst (get_region ''r2'' ex_ctx True ?s) = Inr (Some ex_r2)" by code_simp
  have api: "invade (ex_api 1000) = Region_invade" by (simp add: ex_api_def)
  have rank: "leader (player (pending ?s))" by code_simp
  have enemy: "owner ex_r2 \<noteq> team (player (pending ?s))" by code_simp
  have adj: "region_id ex_r2 \<in> set (adjacent (user_region (player (pending ?s))))" by code_simp
  have free: "find (\<lambda>b. region_id (battle_region b) = region_id ex_r2 \<and> \<not> resolved b)
                (battles (pending ?s)) = None" by code_simp
  have quiet: "\<forall>t e. comment_reply ex_ctx t = Inl e \<longrightarrow> e = APIException \<or> e = Timeout"
    by (simp add: ex_ctx_def)
  have sub: "\<And>sr title text. reddit_submit ex_ctx sr title text = Inr (Some ''t3_b1'')"
    by (simp add: ex_ctx_def)
  have tm: "now ex_ctx = 1000" "battle_delay (config ex_ctx) = 600" by code_simp+
  have val: "battles (pending ?s)
               @ [(new_battle (pending ?s) ex_r2 (now ex_ctx + battle_delay (config ex_ctx)))
                    \<lparr>lockout := battle_lockout (config ex_ctx)\<rparr>\<lparr>submission_id := Some ''t3_b1''\<rparr>]
             = [\<lparr>battle_id = 1, battle_region = ex_r2, begins = 1600, lockout = None,
                 submission_id = Some ''t3_b1'', resolved = False\<rparr>]"
    by code_simp
  note th = invade_begins_after_delay [OF found api rank enemy adj free quiet]
  from th sub have "fst (InvadeCommand_execute (ex_api 1000) ''r2'' ex_ctx ?s) = Inr ()
     \<and> battles (committed (snd (InvadeCommand_execute (ex_api 1000) ''r2'' ex_ctx ?s))) =
         battles (pending ?s)
               @ [(new_battle (pending ?s) ex_r2 (now ex_ctx + battle_delay (config ex_ctx)))
                    \<lparr>lockout := battle_lockout (config ex_ctx)\<rparr>\<lparr>submission_id := Some ''t3_b1''\<rparr>]"
    by blast
  then show ?thesis using found tm val by simp
qed

text \<open>
  Claim C1 asks that a battle whose announcement thread could not be submitted is rolled
  back, whatever the configuration. Without \<^verbatim>\<open>battle_lockout\<close> the handler does so:
  the rollback returns the pending database to the committed one. With it the handler
  has committed the battle inside the \<^verbatim>\<open>try\<close> block, before the thread is submitted,
  and the rollback restores a database that already holds the battle without a
  submission id.
\<close>

lemma invade_without_lockout_rolls_back:
  assumes found: "fst (get_region wh ctx True s) = Inr (Some dest)"
      and api: "invade api = Region_invade"
      and rank: "leader (player (pending s))"
      and enemy: "owner dest \<noteq> team (player (pending s))"
      and adj: "region_id dest \<in> set (adjacent (user_region (player (pending s))))"
      and free: "find (\<lambda>b. region_id (battle_region b) = region_id dest \<and> \<not> resolved b)
                   (battles (pending s)) = None"
      and quiet: "\<forall>t e. comment_reply ctx t = Inl e \<longrightarrow> e = APIException \<or> e = Timeout"
      and nolock: "battle_lockout (config ctx) = None"
      and nosub: "fst (submit ctx (srname dest) (invasion_title api (team (player (pending s))))
                    (invasion_text api ((new_battle (pending s) dest (now ctx + battle_delay (config ctx)))\<lparr>lockout := battle_lockout (config ctx)\<rparr>)) s) = Inr None"
  shows "committed (snd (InvadeCommand_execute api wh ctx s)) = committed s \<and> pending (snd (InvadeCommand_execute api wh ctx s)) = committed s
         \<and> commits (snd (InvadeCommand_execute api wh ctx s)) = commits s"
proof -
  note ex = invade_execute_success [OF found api rank enemy adj free]
  have fresh: "\<forall>x\<in>set (battles (pending s)). battle_id x \<noteq> battle_id ((new_battle (pending s) dest (now ctx + battle_delay (config ctx)))\<lparr>lockout := battle_lockout (config ctx)\<rparr>)"
    using new_battle_fresh [of "pending s" dest "now ctx + battle_delay (config ctx)"] by simp
  have tm: "team (player (pending (snd (invade_try api dest (now ctx + battle_delay (config ctx)) ctx s)))) = team (player (pending s))"
    by (simp add: ex(2))
  note ann = invade_announce_effect [OF ex(2) fresh quiet, of dest api s, unfolded tm]
  have "committed (snd (invade_try api dest (now ctx + battle_delay (config ctx)) ctx s)) = committed s \<and> commits (snd (invade_try api dest (now ctx + battle_delay (config ctx)) ctx s)) = commits s"
    using ex(4) nolock by simp
  then show ?thesis using ann nosub by (simp add: ex(3))
qed

lemma invade_with_lockout_keeps_battle:
  assumes found: "fst (get_region wh ctx True s) = Inr (Some dest)"
      and api: "invade api = Region_invade"
      and rank: "leader (player (pending s))"
      and enemy: "owner dest \<noteq> team (player (pending s))"
      and adj: "region_id dest \<in> set (adjacent (user_region (player (pending s))))"
      and free: "find (\<lambda>b. region_id (battle_region b) = region_id dest \<and> \<not> resolved b)
                   (battles (pending s)) = None"
      and quiet: "\<forall>t e. comment_reply ctx t = Inl e \<longrightarrow> e = APIException \<or> e = Timeout"
      and lock: "battle_lockout (config ctx) = Some l"
      and nosub: "fst (submit ctx (srname dest) (invasion_title api (team (player (pending s))))
                    (invasion_text api ((new_battle (pending s) dest (now ctx + battle_delay (config ctx)))\<lparr>lockout := battle_lockout (config ctx)\<rparr>)) s) = Inr None"
  shows "battles (committed (snd (InvadeCommand_execute api wh ctx s))) = battles (pending s) @ [(new_battle (pending s) dest (now ctx + battle_delay (config ctx)))\<lparr>lockout := battle_lockout (config ctx)\<rparr>]
         \<and> submission_id ((new_battle (pending s) dest (now ctx + battle_delay (config ctx)))\<lparr>lockout := battle_lockout (config ctx)\<rparr>) = None"
proof -
  note ex = invade_execute_success [OF found api rank enemy adj free]
  have fresh: "\<forall>x\<in>set (battles (pending s)). battle_id x \<noteq> battle_id ((new_battle (pending s) dest (now ctx + battle_delay (config ctx)))\<lparr>lockout := battle_lockout (config ctx)\<rparr>)"
    using new_battle_fresh [of "pending s" dest "now ctx + battle_delay (config ctx)"] by simp
  have tm: "team (player (pending (snd (invade_try api dest (now ctx + battle_delay (config ctx)) ctx s)))) = team (player (pending s))"
    by (simp add: ex(2))
  note ann = invade_announce_effect [OF ex(2) fresh quiet, of dest api s, unfolded tm]
  have "committed (snd (invade_try api dest (now ctx + battle_delay (config ctx)) ctx s)) = pending (snd (invade_try api dest (now ctx + battle_delay (config ctx)) ctx s))"
    using ex(4) lock by simp
  then have "committed (snd (InvadeCommand_execute api wh ctx s)) = (pending s)\<lparr>battles := battles (pending s) @ [(new_battle (pending s) dest (now ctx + battle_delay (config ctx)))\<lparr>lockout := battle_lockout (config ctx)\<rparr>]\<rparr>"
    using ann nosub by (simp add: ex(3) ex(2))
  then show ?thesis by (simp add: new_battle_def)
qed

text \<open>
  Claim C1, at a concrete input: lockout 300 configured, a valid invasion of R2 at time
  1000 and a socket timeout on the submission. The handler returns normally and the
  committed database, empty of battles before, holds a battle with no submission id.
\<close>

theorem invade_lockout_commits_before_announcement:
  "fst (InvadeCommand_execute (ex_api 1000) ''r2''
          (ex_ctx\<lparr>config := ex_config\<lparr>battle_lockout := Some 300\<rparr>,
                  reddit_submit := (\<lambda>sr title text. Inl Timeout)\<rparr>) (ex_state ex_db)) = Inr ()
   \<and> battles (committed (ex_state ex_db)) = []
   \<and> battles (committed (snd (InvadeCommand_execute (ex_api 1000) ''r2''
          (ex_ctx\<lparr>config := ex_config\<lparr>battle_lockout := Some 300\<rparr>,
                  reddit_submit := (\<lambda>sr title text. Inl Timeout)\<rparr>) (ex_state ex_db)))) =
       [\<lparr>battle_id = 1, battle_region = ex_r2, begins = 1600, lockout = Some 300,
         submission_id = None, resolved = False\<rparr>]"
  by code_simp

lemma invade_no_lockout_rolls_back_example:
  "battles (committed (snd (InvadeCommand_execute (ex_api 1000) ''r2''
          (ex_ctx\<lparr>reddit_submit := (\<lambda>sr title text. Inl Timeout)\<rparr>) (ex_state ex_db)))) = []
   \<and> battles (pending (snd (InvadeCommand_execute (ex_api 1000) ''r2''
          (ex_ctx\<lparr>reddit_submit := (\<lambda>sr title text. Inl Timeout)\<rparr>) (ex_state ex_db)))) = []"
  by code_simp

subsection \<open>Numbers and the two patterns\<close>

lemma digit_char_props:
  assumes "d < 10"
  shows "is_digit (digit_char d)" and "digit_val (digit_char d) = d"
proof -
  have "d \<in> {0, 1, 2, 3, 4, 5, 6, 7, 8, 9}" using assms by auto
  then show "is_digit (digit_char d)" and "digit_val (digit_char d) = d"
    by (auto simp add: digit_char_def is_digit_def digit_val_def)
qed

lemma digits_of_digits: "\<forall>c\<in>set (digits_of n). is_digit c"
proof (induction n rule: digits_of.induct)
  case (1 n)
  show ?case
  proof (cases "n < 10")
    case True
    then show ?thesis by (subst digits_of.simps) (simp add: digit_char_props)
  next
    case False
    have "n mod 10 < 10" by simp
    then have "is_digit (digit_char (n mod 10))" by (rule digit_char_props)
    then show ?thesis using False "1.IH" by (subst digits_of.simps) simp
  qed
qed

lemma digits_of_nonempty: "digits_of n \<noteq> []"
  by (subst digits_of.simps) simp

lemma digits_of_value: "foldl (\<lambda>acc c. 10 * acc + digit_val c) 0 (digits_of n) = n"
proof (induction n rule: digits_of.induct)
  case (1 n)
  show ?case
  proof (cases "n < 10")
    case True
    then show ?thesis by (subst digits_of.simps) (simp add: digit_char_props)
  next
    case False
    have "n mod 10 < 10" by simp
    then have "digit_val (digit_char (n mod 10)) = n mod 10" by (rule digit_char_props)
    then show ?thesis using False "1.IH" by (subst digits_of.simps) simp
  qed
qed

lemma int_of_digits_of: "int_of_digits (digits_of n) = int n"
  by (simp add: int_of_digits_def digits_of_value)

lemma fmt_d_nonneg: "0 \<le> i \<Longrightarrow> fmt_d i = digits_of (nat i)"
  by (simp add: fmt_d_def)

lemma fmt_d_chars:
  assumes "c \<in> set (fmt_d i)"
  shows "c = CHR ''-'' \<or> is_digit c"
  using assms digits_of_digits by (auto simp add: fmt_d_def split: if_splits)

lemma fmt_d_not:
  assumes "c \<in> set (fmt_d i)"
  shows "c \<noteq> CHR ''('' \<and> c \<noteq> CHR ''S'' \<and> c \<noteq> CHR ''#'' \<and> c \<noteq> CHR ''*''"
  using fmt_d_chars [OF assms] by (auto simp add: is_digit_def)

lemma match_at_marker:
  assumes "\<forall>c\<in>set ds. is_digit c" and "ds \<noteq> []" and "\<not> is_digit p"
  shows "match_at pre [p] (pre @ ds @ p # rest) = Some (int_of_digits ds)"
proof -
  have "takeWhile is_digit (ds @ p # rest) = ds" using assms by (simp add: takeWhile_append2)
  moreover have "dropWhile is_digit (ds @ p # rest) = p # rest"
    using assms by (simp add: dropWhile_append2)
  ultimately show ?thesis using assms by (simp add: match_at_def Let_def)
qed

lemma match_at_Some:
  assumes "match_at pre post t = Some n"
  shows "\<exists>ds B. t = pre @ ds @ post @ B \<and> ds \<noteq> [] \<and> list_all is_digit ds \<and> n = int_of_digits ds"
proof -
  let ?rest = "drop (length pre) t"
  let ?ds = "takeWhile is_digit ?rest"
  let ?after = "dropWhile is_digit ?rest"
  from assms have p: "take (length pre) t = pre"
    by (simp add: match_at_def split: if_splits)
  from assms p have d: "?ds \<noteq> []" and a: "take (length post) ?after = post"
    and n: "n = int_of_digits ?ds"
    by (simp_all add: match_at_def Let_def split: if_splits)
  have "t = take (length pre) t @ ?rest" by simp
  then have 1: "t = pre @ ?rest" using p by simp
  have 2: "?rest = ?ds @ ?after" by simp
  have "?after = take (length post) ?after @ drop (length post) ?after" by simp
  then have 3: "?after = post @ drop (length post) ?after" using a by simp
  have "t = pre @ ?ds @ post @ drop (length post) ?after"
    using 1 2 3 by metis
  moreover have "list_all is_digit ?ds"
    by (simp add: list_all_iff) (meson set_takeWhileD)
  ultimately show ?thesis using d n by blast
qed

lemma marker_at_split:
  "marker_at pre post body k ds \<longleftrightarrow>
     ds \<noteq> [] \<and> list_all is_digit ds \<and> (\<exists>B. drop k body = pre @ ds @ post @ B)"
proof
  assume m: "marker_at pre post body k ds"
  then have t: "take (length (pre @ ds @ post)) (drop k body) = pre @ ds @ post"
    by (simp add: marker_at_def)
  have "drop k body = take (length (pre @ ds @ post)) (drop k body)
                      @ drop (length (pre @ ds @ post)) (drop k body)"
    by (simp only: append_take_drop_id)
  then have "drop k body = pre @ ds @ post @ drop (length (pre @ ds @ post)) (drop k body)"
    using t by simp
  then show "ds \<noteq> [] \<and> list_all is_digit ds \<and> (\<exists>B. drop k body = pre @ ds @ post @ B)"
    using m by (auto simp add: marker_at_def)
next
  assume "ds \<noteq> [] \<and> list_all is_digit ds \<and> (\<exists>B. drop k body = pre @ ds @ post @ B)"
  then show "marker_at pre post body k ds" by (auto simp add: marker_at_def)
qed

lemma marker_at_text:
  assumes "body = A @ pre @ ds @ post @ B" and "ds \<noteq> []" and "list_all is_digit ds"
  shows "marker_at pre post body (length A) ds"
  using assms by (simp add: marker_at_split)

lemma match_at_marker_iff:
  assumes "\<not> is_digit p"
  shows "match_at pre [p] (drop k s) = Some n
         \<longleftrightarrow> (\<exists>ds. marker_at pre [p] s k ds \<and> n = int_of_digits ds)"
proof
  assume "match_at pre [p] (drop k s) = Some n"
  from match_at_Some [OF this]
  show "\<exists>ds. marker_at pre [p] s k ds \<and> n = int_of_digits ds"
    by (auto simp add: marker_at_split)
next
  assume "\<exists>ds. marker_at pre [p] s k ds \<and> n = int_of_digits ds"
  then obtain ds B where d: "ds \<noteq> []" "list_all is_digit ds" "n = int_of_digits ds"
    and e: "drop k s = pre @ ds @ [p] @ B"
    by (auto simp add: marker_at_split)
  have "match_at pre [p] (pre @ ds @ p # B) = Some (int_of_digits ds)"
    using d assms by (intro match_at_marker) (simp_all add: list_all_iff)
  then show "match_at pre [p] (drop k s) = Some n" using d e by simp
qed

lemma marker_at_inside:
  assumes "marker_at pre post s k ds"
  shows "k < length s"
proof (rule ccontr)
  assume "\<not> k < length s"
  then have "drop k s = []" by simp
  then show False using assms by (auto simp add: marker_at_def)
qed

lemma re_search_Some_iff:
  "re_search pre post s = Some n \<longleftrightarrow>
     (\<exists>k\<le>length s. match_at pre post (drop k s) = Some n
                   \<and> (\<forall>j<k. match_at pre post (drop j s) = None))"
proof (induction s)
  case Nil
  show ?case by simp
next
  case (Cons c cs)
  show ?case
  proof (cases "match_at pre post (c # cs)")
    case (Some m)
    have "(\<exists>k\<le>length (c # cs). match_at pre post (drop k (c # cs)) = Some n
             \<and> (\<forall>j<k. match_at pre post (drop j (c # cs)) = None)) \<longleftrightarrow> m = n"
    proof
      assume "\<exists>k\<le>length (c # cs). match_at pre post (drop k (c # cs)) = Some n
             \<and> (\<forall>j<k. match_at pre post (drop j (c # cs)) = None)"
      then obtain k where k: "match_at pre post (drop k (c # cs)) = Some n"
        and l: "\<forall>j<k. match_at pre post (drop j (c # cs)) = None" by blast
      have "k = 0"
      proof (rule ccontr)
        assume "k \<noteq> 0"
        then have "match_at pre post (drop 0 (c # cs)) = None" using l by blast
        then show False using Some by simp
      qed
      then show "m = n" using k Some by simp
    next
      assume "m = n"
      then have "match_at pre post (drop 0 (c # cs)) = Some n" using Some by simp
      then show "\<exists>k\<le>length (c # cs). match_at pre post (drop k (c # cs)) = Some n
             \<and> (\<forall>j<k. match_at pre post (drop j (c # cs)) = None)" by blast
    qed
    then show ?thesis using Some by simp
  next
    case None
    have "(\<exists>k\<le>length (c # cs). match_at pre post (drop k (c # cs)) = Some n
             \<and> (\<forall>j<k. match_at pre post (drop j (c # cs)) = None))
          \<longleftrightarrow> (\<exists>k\<le>length cs. match_at pre post (drop k cs) = Some n
             \<and> (\<forall>j<k. match_at pre post (drop j cs) = None))"
    proof
      assume "\<exists>k\<le>length (c # cs). match_at pre post (drop k (c # cs)) = Some n
             \<and> (\<forall>j<k. match_at pre post (drop j (c # cs)) = None)"
      then obtain k where b: "k \<le> length (c # cs)"
        and k: "match_at pre post (drop k (c # cs)) = Some n"
        and l: "\<forall>j<k. match_at pre post (drop j (c # cs)) = None" by blast
      have "k \<noteq> 0" using k None by (cases k) simp_all
      then obtain k' where k': "k = Suc k'" by (cases k) simp_all
      have "\<forall>j<k'. match_at pre post (drop j cs) = None"
      proof (intro allI impI)
        fix j assume "j < k'"
        then have "Suc j < k" using k' by simp
        then have "match_at pre post (drop (Suc j) (c # cs)) = None" using l by blast
        then show "match_at pre post (drop j cs) = None" by simp
      qed
      moreover have "k' \<le> length cs" using b k' by simp
      moreover have "match_at pre post (drop k' cs) = Some n" using k k' by simp
      ultimately show "\<exists>k\<le>length cs. match_at pre post (drop k cs) = Some n
             \<and> (\<forall>j<k. match_at pre post (drop j cs) = None)" by blast
    next
      assume "\<exists>k\<le>length cs. match_at pre post (drop k cs) = Some n
             \<and> (\<forall>j<k. match_at pre post (drop j cs) = None)"
      then obtain k where b: "k \<le> length cs"
        and k: "match_at pre post (drop k cs) = Some n"
        and l: "\<forall>j<k. match_at pre post (drop j cs) = None" by blast
      have "\<forall>j<Suc k. match_at pre post (drop j (c # cs)) = None"
      proof (intro allI impI)
        fix j assume j: "j < Suc k"
        show "match_at pre post (drop j (c # cs)) = None"
        proof (cases j)
          case 0
          then show ?thesis using None by simp
        next
          case (Suc j')
          then have "j' < k" using j by simp
          then show ?thesis using l Suc by simp
        qed
      qed
      moreover have "Suc k \<le> length (c # cs)" using b by simp
      moreover have "match_at pre post (drop (Suc k) (c # cs)) = Some n" using k by simp
      ultimately show "\<exists>k\<le>length (c # cs). match_at pre post (drop k (c # cs)) = Some n
             \<and> (\<forall>j<k. match_at pre post (drop j (c # cs)) = None)" by blast
    qed
    then show ?thesis using None Cons.IH by simp
  qed
qed

lemma re_search_None_iff:
  "re_search pre post s = None \<longleftrightarrow> (\<forall>k\<le>length s. match_at pre post (drop k s) = None)"
proof (induction s)
  case Nil
  show ?case by simp
next
  case (Cons c cs)
  have "(\<forall>k\<le>length (c # cs). match_at pre post (drop k (c # cs)) = None)
        \<longleftrightarrow> match_at pre post (c # cs) = None
            \<and> (\<forall>k\<le>length cs. match_at pre post (drop k cs) = None)"
  proof
    assume a: "\<forall>k\<le>length (c # cs). match_at pre post (drop k (c # cs)) = None"
    have "match_at pre post (drop 0 (c # cs)) = None" using a by blast
    moreover have "\<forall>k\<le>length cs. match_at pre post (drop k cs) = None"
    proof (intro allI impI)
      fix k assume "k \<le> length cs"
      then have "Suc k \<le> length (c # cs)" by simp
      then have "match_at pre post (drop (Suc k) (c # cs)) = None" using a by blast
      then show "match_at pre post (drop k cs) = None" by simp
    qed
    ultimately show "match_at pre post (c # cs) = None
            \<and> (\<forall>k\<le>length cs. match_at pre post (drop k cs) = None)" by simp
  next
    assume a: "match_at pre post (c # cs) = None
            \<and> (\<forall>k\<le>length cs. match_at pre post (drop k cs) = None)"
    show "\<forall>k\<le>length (c # cs). match_at pre post (drop k (c # cs)) = None"
    proof (intro allI impI)
      fix k assume k: "k \<le> length (c # cs)"
      show "match_at pre post (drop k (c # cs)) = None"
        using a k by (cases k) simp_all
    qed
  qed
  then show ?case using Cons.IH by (simp split: option.splits)
qed

text \<open>
  The search returns the number of the leftmost marker of the text, and nothing when the
  text holds no marker.
\<close>

lemma re_search_marker:
  assumes "\<not> is_digit p"
  shows "re_search pre [p] s = Some n \<longleftrightarrow>
           (\<exists>k ds. marker_at pre [p] s k ds \<and> n = int_of_digits ds
                   \<and> (\<forall>k' ds'. marker_at pre [p] s k' ds' \<longrightarrow> k \<le> k'))"
proof
  assume "re_search pre [p] s = Some n"
  then obtain k where k: "match_at pre [p] (drop k s) = Some n"
    and l: "\<forall>j<k. match_at pre [p] (drop j s) = None"
    by (auto simp add: re_search_Some_iff)
  from k obtain ds where d: "marker_at pre [p] s k ds" "n = int_of_digits ds"
    using match_at_marker_iff [OF assms] by blast
  have "\<forall>k' ds'. marker_at pre [p] s k' ds' \<longrightarrow> k \<le> k'"
  proof (intro allI impI)
    fix k' ds' assume "marker_at pre [p] s k' ds'"
    then have "match_at pre [p] (drop k' s) = Some (int_of_digits ds')"
      using match_at_marker_iff [OF assms] by blast
    then have "\<not> k' < k" using l by auto
    then show "k \<le> k'" by simp
  qed
  then show "\<exists>k ds. marker_at pre [p] s k ds \<and> n = int_of_digits ds
                   \<and> (\<forall>k' ds'. marker_at pre [p] s k' ds' \<longrightarrow> k \<le> k')"
    using d by blast
next
  assume "\<exists>k ds. marker_at pre [p] s k ds \<and> n = int_of_digits ds
                   \<and> (\<forall>k' ds'. marker_at pre [p] s k' ds' \<longrightarrow> k \<le> k')"
  then obtain k ds where d: "marker_at pre [p] s k ds" "n = int_of_digits ds"
    and l: "\<forall>k' ds'. marker_at pre [p] s k' ds' \<longrightarrow> k \<le> k'" by blast
  have m: "match_at pre [p] (drop k s) = Some n"
    using d match_at_marker_iff [OF assms] by blast
  have b: "k \<le> length s" using marker_at_inside [OF d(1)] by simp
  have "\<forall>j<k. match_at pre [p] (drop j s) = None"
  proof (intro allI impI)
    fix j assume j: "j < k"
    show "match_at pre [p] (drop j s) = None"
    proof (cases "match_at pre [p] (drop j s)")
      case None
      then show ?thesis .
    next
      case (Some m')
      then obtain ds' where "marker_at pre [p] s j ds'"
        using match_at_marker_iff [OF assms] by blast
      then have "k \<le> j" using l by blast
      then show ?thesis using j by simp
    qed
  qed
  then show "re_search pre [p] s = Some n" using m b by (auto simp add: re_search_Some_iff)
qed

lemma re_search_no_marker:
  assumes "\<not> is_digit p"
  shows "re_search pre [p] s = None \<longleftrightarrow> (\<forall>k ds. \<not> marker_at pre [p] s k ds)"
proof
  assume n: "re_search pre [p] s = None"
  show "\<forall>k ds. \<not> marker_at pre [p] s k ds"
  proof (intro allI notI)
    fix k ds assume d: "marker_at pre [p] s k ds"
    then have "match_at pre [p] (drop k s) = Some (int_of_digits ds)"
      using match_at_marker_iff [OF assms] by blast
    moreover have "k \<le> length s" using marker_at_inside [OF d] by simp
    ultimately show False using n by (auto simp add: re_search_None_iff)
  qed
next
  assume a: "\<forall>k ds. \<not> marker_at pre [p] s k ds"
  have "\<forall>k\<le>length s. match_at pre [p] (drop k s) = None"
  proof (intro allI impI)
    fix k
    show "match_at pre [p] (drop k s) = None"
    proof (cases "match_at pre [p] (drop k s)")
      case None
      then show ?thesis .
    next
      case (Some m')
      then obtain ds' where "marker_at pre [p] s k ds'"
        using match_at_marker_iff [OF assms] by blast
      then show ?thesis using a by blast
    qed
  qed
  then show "re_search pre [p] s = None" by (simp add: re_search_None_iff)
qed

lemma marker_id_markers:
  "marker_id body = Some n \<longleftrightarrow>
     (\<exists>k ds. marker_at ''(subskirmish '' '')'' body k ds \<and> n = int_of_digits ds
             \<and> (\<forall>k' ds'. marker_at ''(subskirmish '' '')'' body k' ds' \<longrightarrow> k \<le> k'))
   \<or> ((\<forall>k ds. \<not> marker_at ''(subskirmish '' '')'' body k ds)
      \<and> (\<exists>k ds. marker_at ''Skirmish #'' ''*'' body k ds \<and> n = int_of_digits ds
                \<and> (\<forall>k' ds'. marker_at ''Skirmish #'' ''*'' body k' ds' \<longrightarrow> k \<le> k')))"
proof -
  have p: "\<not> is_digit (CHR '')'')" "\<not> is_digit (CHR ''*'')" by (simp_all add: is_digit_def)
  have "marker_id body = Some n \<longleftrightarrow>
          search_subskirmish body = Some n
        \<or> (search_subskirmish body = None \<and> search_skirmish body = Some n)"
    by (simp add: marker_id_def split: option.splits)
  then show ?thesis
    unfolding search_subskirmish_def search_skirmish_def
      re_search_marker [OF p(1)] re_search_marker [OF p(2)] re_search_no_marker [OF p(1)] .
qed

lemma match_at_other_head:
  assumes "c \<noteq> p"
  shows "match_at (p # pre) post (c # cs) = None"
  using assms by (simp add: match_at_def)

lemma re_search_hit:
  assumes "match_at pre post s = Some n"
  shows "re_search pre post s = Some n"
  using assms by (cases s) simp_all

lemma re_search_skip_chars:
  assumes "\<forall>c\<in>set A. c \<noteq> p"
  shows "re_search (p # pre) post (A @ S) = re_search (p # pre) post S"
  using assms by (induction A) (simp_all add: match_at_other_head)

lemma re_search_none:
  assumes "\<forall>c\<in>set A. c \<noteq> p"
  shows "re_search (p # pre) post A = None"
  using assms by (induction A) (simp_all add: match_at_other_head match_at_def)

lemma prefix_clash:
  assumes eq: "take (length pre) (X @ S) = pre"
      and ne: "pre \<noteq> []" and S: "S \<noteq> []" and hd: "hd S \<notin> set pre"
  shows "last pre \<in> set X"
proof (cases "length pre \<le> length X")
  case True
  then have "pre = take (length pre) X" using eq by simp
  then have "set pre \<subseteq> set X" by (metis set_take_subset)
  then show ?thesis using ne last_in_set by blast
next
  case False
  then have "pre = X @ take (length pre - length X) S" using eq by simp
  moreover have "take (length pre - length X) S = hd S # take (length pre - length X - 1) (tl S)"
    using False S by (cases S) (simp_all add: take_Cons')
  ultimately have "hd S \<in> set pre" by (metis in_set_conv_decomp)
  then show ?thesis using hd by simp
qed

lemma re_search_skip_word:
  assumes ne: "pre \<noteq> []" and T: "last pre \<notin> set T" and S: "S \<noteq> []" and hd: "hd S \<notin> set pre"
  shows "re_search pre post (T @ S) = re_search pre post S"
  using T
proof (induction T)
  case Nil
  then show ?case by simp
next
  case (Cons t T)
  have "take (length pre) ((t # T) @ S) \<noteq> pre"
    using prefix_clash [OF _ ne S hd, of "t # T"] Cons.prems by blast
  then have "match_at pre post (t # T @ S) = None" by (simp add: match_at_def)
  then show ?case using Cons by simp
qed

lemma re_search_number:
  assumes "0 \<le> i" and "\<not> is_digit p"
  shows "re_search pre [p] (pre @ fmt_d i @ p # rest) = Some i"
proof -
  have "match_at pre [p] (pre @ digits_of (nat i) @ p # rest) = Some (int_of_digits (digits_of (nat i)))"
    using digits_of_digits digits_of_nonempty assms(2) by (intro match_at_marker) simp_all
  then have "match_at pre [p] (pre @ fmt_d i @ p # rest) = Some i"
    using assms(1) by (simp add: fmt_d_nonneg int_of_digits_of)
  then show ?thesis by (rule re_search_hit)
qed

subsection \<open>Reconciliation of reply threads\<close>

lemma failable_snd_db:
  "pending (snd (failable x)) = pending (snd x)"
  "committed (snd (failable x)) = committed (snd x)"
  "commits (snd (failable x)) = commits (snd x)"
  "fetches (snd (failable x)) = fetches (snd x)"
  by (cases x rule: failable.cases; simp add: log_warning_def)+

lemma extract_marked:
  assumes "marker_count (parent_id (comment ctx)) (pending s) \<noteq> 0"
  shows "extract_subskirmish ctx btl s = (Inr None, s)"
  using assms by (auto simp add: extract_subskirmish_def extract_subskirmish_body_def Let_def)

lemma extract_foreign:
  assumes "comment_author (comment ctx) \<noteq> None"
      and "marker_count (parent_id (comment ctx)) (pending s) = 0"
      and "reddit_get_info ctx (parent_id (comment ctx)) = Inr (Some parent)"
      and "thing_author parent = Some a" and "a \<noteq> username (config ctx)"
  shows "extract_subskirmish ctx btl s =
           (Inr None, commit (s\<lparr>fetches := fetches s @ [parent_id (comment ctx)],
                                 pending := add_processed \<lparr>id36 = thing_name parent,
                                                           processed_battle = battle_id btl\<rparr> (pending s)\<rparr>))"
  using assms by (auto simp add: extract_subskirmish_def extract_subskirmish_body_def Let_def)

lemma extract_own:
  assumes "comment_author (comment ctx) \<noteq> None"
      and "marker_count (parent_id (comment ctx)) (pending s) = 0"
      and "reddit_get_info ctx (parent_id (comment ctx)) = Inr (Some parent)"
      and "thing_author parent = Some (username (config ctx))"
  shows "extract_subskirmish ctx btl s =
           (Inr (marker_id (thing_body parent)), s\<lparr>fetches := fetches s @ [parent_id (comment ctx)]\<rparr>)"
  using assms by (auto simp add: extract_subskirmish_def extract_subskirmish_body_def Let_def)

lemma extract_deleted:
  assumes "comment_author (comment ctx) \<noteq> None"
      and "marker_count (parent_id (comment ctx)) (pending s) = 0"
      and "reddit_get_info ctx (parent_id (comment ctx)) = Inr (Some parent)"
      and "thing_author parent = None"
  shows "extract_subskirmish ctx btl s =
           (Inr None, s\<lparr>fetches := fetches s @ [parent_id (comment ctx)]\<rparr>)"
  using assms by (auto simp add: extract_subskirmish_def extract_subskirmish_body_def Let_def)

lemma extract_fetches:
  assumes "comment_author (comment ctx) \<noteq> None"
      and "marker_count (parent_id (comment ctx)) (pending s) = 0"
  shows "fetches (snd (extract_subskirmish ctx btl s)) = fetches s @ [parent_id (comment ctx)]"
  unfolding extract_subskirmish_def failable_snd_db
  using assms
  by (auto simp add: extract_subskirmish_body_def Let_def commit_def log_warning_def
        split: sum.splits option.splits)

lemma extract_unmarked:
  assumes "reddit_get_info ctx (parent_id (comment ctx)) = Inl e
           \<or> reddit_get_info ctx (parent_id (comment ctx)) = Inr None
           \<or> reddit_get_info ctx (parent_id (comment ctx)) = Inr (Some parent)
             \<and> (thing_author parent = None \<or> thing_author parent = Some (username (config ctx)))"
  shows "pending (snd (extract_subskirmish ctx btl s)) = pending s"
    and "committed (snd (extract_subskirmish ctx btl s)) = committed s"
    and "commits (snd (extract_subskirmish ctx btl s)) = commits s"
  unfolding extract_subskirmish_def failable_snd_db
  using assms
  by (auto simp add: extract_subskirmish_body_def Let_def log_warning_def
        split: sum.splits option.splits)

lemma marker_count_add:
  "marker_count pid (add_processed m d) = marker_count pid d + (if id36 m = pid then 1 else 0)"
  by (simp add: marker_count_def add_processed_def)

lemma extract_pending:
  "pending (snd (extract_subskirmish ctx btl s)) = pending s
   \<or> (marker_count (parent_id (comment ctx)) (pending s) = 0
      \<and> (\<exists>m. pending (snd (extract_subskirmish ctx btl s)) = add_processed m (pending s)))"
  unfolding extract_subskirmish_def failable_snd_db
  by (auto simp add: extract_subskirmish_body_def Let_def commit_def log_warning_def
        split: sum.splits option.splits)

lemma extract_count:
  "marker_count (parent_id (comment ctx)) (pending (snd (extract_subskirmish ctx btl s)))
     = marker_count (parent_id (comment ctx)) (pending s)
   \<or> (marker_count (parent_id (comment ctx)) (pending s) = 0
      \<and> marker_count (parent_id (comment ctx)) (pending (snd (extract_subskirmish ctx btl s))) \<le> 1)"
  using extract_pending [of ctx btl s] by (auto simp add: marker_count_add)

text \<open>
  Claim C3, as amended. Two reconciliation attempts for the same parent message id write
  at most one Processed marker for that id. An attempt for an id that is in the log
  returns no match and leaves the state as it is: no fetch, no write, no commit. That is
  the case for the second attempt whenever the first one fetched a parent that carries
  the id as its name and whose author is not the bot, since the first attempt then wrote
  and committed the marker. When the fetch of the first attempt fails, by an exception
  or by returning nothing, or returns a parent without an author or a parent written by
  the bot, the first attempt writes no marker and commits nothing, and both attempts
  fetch the parent.
\<close>

theorem reconcile_marked_parent_short_circuits:
  assumes same: "parent_id (comment ctx2) = parent_id (comment ctx1)"
  shows "(marker_count (parent_id (comment ctx1)) (pending s) \<noteq> 0 \<longrightarrow>
            extract_subskirmish ctx1 btl s = (Inr None, s))
       \<and> (comment_author (comment ctx1) \<noteq> None \<and> marker_count (parent_id (comment ctx1)) (pending s) = 0
          \<and> reddit_get_info ctx1 (parent_id (comment ctx1)) = Inr (Some parent) \<and> thing_name parent = parent_id (comment ctx1)
          \<and> thing_author parent = Some a \<and> a \<noteq> username (config ctx1) \<longrightarrow>
            marker_count (parent_id (comment ctx1)) (pending (snd (extract_subskirmish ctx1 btl s))) = 1
          \<and> committed (snd (extract_subskirmish ctx1 btl s)) = pending (snd (extract_subskirmish ctx1 btl s))
          \<and> extract_subskirmish ctx2 btl2 (snd (extract_subskirmish ctx1 btl s)) = (Inr None, snd (extract_subskirmish ctx1 btl s)))
       \<and> marker_count (parent_id (comment ctx1)) (pending (snd (extract_subskirmish ctx2 btl2 (snd (extract_subskirmish ctx1 btl s))))) \<le> Suc (marker_count (parent_id (comment ctx1)) (pending s))
       \<and> (comment_author (comment ctx1) \<noteq> None \<and> comment_author (comment ctx2) \<noteq> None
          \<and> marker_count (parent_id (comment ctx1)) (pending s) = 0
          \<and> (reddit_get_info ctx1 (parent_id (comment ctx1)) = Inl e
             \<or> reddit_get_info ctx1 (parent_id (comment ctx1)) = Inr None
             \<or> reddit_get_info ctx1 (parent_id (comment ctx1)) = Inr (Some parent)
               \<and> (thing_author parent = None \<or> thing_author parent = Some (username (config ctx1)))) \<longrightarrow>
            pending (snd (extract_subskirmish ctx1 btl s)) = pending s
          \<and> committed (snd (extract_subskirmish ctx1 btl s)) = committed s
          \<and> commits (snd (extract_subskirmish ctx1 btl s)) = commits s
          \<and> fetches (snd (extract_subskirmish ctx1 btl s)) = fetches s @ [parent_id (comment ctx1)]
          \<and> fetches (snd (extract_subskirmish ctx2 btl2 (snd (extract_subskirmish ctx1 btl s))))
              = fetches s @ [parent_id (comment ctx1), parent_id (comment ctx1)])"
proof -
  let ?pid = "parent_id (comment ctx1)"
  let ?s1 = "snd (extract_subskirmish ctx1 btl s)"
  have a: "marker_count ?pid (pending s) \<noteq> 0 \<longrightarrow> extract_subskirmish ctx1 btl s = (Inr None, s)"
    using extract_marked by blast
  have b: "comment_author (comment ctx1) \<noteq> None \<and> marker_count ?pid (pending s) = 0
          \<and> reddit_get_info ctx1 ?pid = Inr (Some parent) \<and> thing_name parent = ?pid
          \<and> thing_author parent = Some a \<and> a \<noteq> username (config ctx1) \<longrightarrow>
            marker_count ?pid (pending ?s1) = 1
          \<and> committed ?s1 = pending ?s1
          \<and> extract_subskirmish ctx2 btl2 ?s1 = (Inr None, ?s1)"
  proof
    assume h: "comment_author (comment ctx1) \<noteq> None \<and> marker_count ?pid (pending s) = 0
          \<and> reddit_get_info ctx1 ?pid = Inr (Some parent) \<and> thing_name parent = ?pid
          \<and> thing_author parent = Some a \<and> a \<noteq> username (config ctx1)"
    then have e: "extract_subskirmish ctx1 btl s =
           (Inr None, commit (s\<lparr>fetches := fetches s @ [?pid],
                                 pending := add_processed \<lparr>id36 = thing_name parent,
                                                           processed_battle = battle_id btl\<rparr> (pending s)\<rparr>))"
      using extract_foreign [of ctx1 s parent a btl] by blast
    have c1: "marker_count ?pid (pending ?s1) = 1"
      using h by (simp add: e commit_def marker_count_add)
    have c2: "committed ?s1 = pending ?s1" by (simp add: e commit_def)
    have "marker_count (parent_id (comment ctx2)) (pending ?s1) \<noteq> 0" using c1 same by simp
    then have c3: "extract_subskirmish ctx2 btl2 ?s1 = (Inr None, ?s1)" by (rule extract_marked)
    show "marker_count ?pid (pending ?s1) = 1
          \<and> committed ?s1 = pending ?s1
          \<and> extract_subskirmish ctx2 btl2 ?s1 = (Inr None, ?s1)"
      using c1 c2 c3 by blast
  qed
  have c: "marker_count ?pid (pending (snd (extract_subskirmish ctx2 btl2 ?s1))) \<le> Suc (marker_count ?pid (pending s))"
    using extract_count [of ctx1 btl s] extract_count [of ctx2 btl2 ?s1] same by auto
  have d: "comment_author (comment ctx1) \<noteq> None \<and> comment_author (comment ctx2) \<noteq> None
          \<and> marker_count ?pid (pending s) = 0
          \<and> (reddit_get_info ctx1 ?pid = Inl e
             \<or> reddit_get_info ctx1 ?pid = Inr None
             \<or> reddit_get_info ctx1 ?pid = Inr (Some parent)
               \<and> (thing_author parent = None \<or> thing_author parent = Some (username (config ctx1)))) \<longrightarrow>
            pending ?s1 = pending s
          \<and> committed ?s1 = committed s
          \<and> commits ?s1 = commits s
          \<and> fetches ?s1 = fetches s @ [?pid]
          \<and> fetches (snd (extract_subskirmish ctx2 btl2 ?s1)) = fetches s @ [?pid, ?pid]"
  proof
    assume h: "comment_author (comment ctx1) \<noteq> None \<and> comment_author (comment ctx2) \<noteq> None
          \<and> marker_count ?pid (pending s) = 0
          \<and> (reddit_get_info ctx1 ?pid = Inl e
             \<or> reddit_get_info ctx1 ?pid = Inr None
             \<or> reddit_get_info ctx1 ?pid = Inr (Some parent)
               \<and> (thing_author parent = None \<or> thing_author parent = Some (username (config ctx1))))"
    then have g: "reddit_get_info ctx1 ?pid = Inl e
             \<or> reddit_get_info ctx1 ?pid = Inr None
             \<or> reddit_get_info ctx1 ?pid = Inr (Some parent)
               \<and> (thing_author parent = None \<or> thing_author parent = Some (username (config ctx1)))"
      by blast
    have d1: "pending ?s1 = pending s" by (rule extract_unmarked(1) [OF g])
    have d2: "committed ?s1 = committed s" by (rule extract_unmarked(2) [OF g])
    have d3: "commits ?s1 = commits s" by (rule extract_unmarked(3) [OF g])
    have d4: "fetches ?s1 = fetches s @ [?pid]" using h by (simp add: extract_fetches)
    have "marker_count (parent_id (comment ctx2)) (pending ?s1) = 0" using h d1 same by simp
    then have "fetches (snd (extract_subskirmish ctx2 btl2 ?s1)) = fetches ?s1 @ [parent_id (comment ctx2)]"
      using h by (simp add: extract_fetches)
    then have d5: "fetches (snd (extract_subskirmish ctx2 btl2 ?s1)) = fetches s @ [?pid, ?pid]"
      using d4 same by simp
    show "pending ?s1 = pending s
          \<and> committed ?s1 = committed s
          \<and> commits ?s1 = commits s
          \<and> fetches ?s1 = fetches s @ [?pid]
          \<and> fetches (snd (extract_subskirmish ctx2 btl2 ?s1)) = fetches s @ [?pid, ?pid]"
      using d1 d2 d3 d4 d5 by blast
  qed
  show ?thesis using a b c d by blast
qed

theorem reconcile_marked_parent_short_circuits_witness:
  "marker_count ''t1_c1'' (pending (ex_state ex_db_battle)) = 0
   \<and> reddit_get_info (ex_ctx\<lparr>reddit_get_info := (\<lambda>pid. Inr (Some ex_foreign_reply))\<rparr>) ''t1_c1''
       = Inr (Some ex_foreign_reply)
   \<and> fetches (snd (extract_subskirmish (ex_ctx\<lparr>reddit_get_info := (\<lambda>pid. Inr (Some ex_foreign_reply))\<rparr>) ex_battle
        (snd (extract_subskirmish (ex_ctx\<lparr>reddit_get_info := (\<lambda>pid. Inr (Some ex_foreign_reply))\<rparr>) ex_battle
           (ex_state ex_db_battle))))) = [''t1_c1'']
   \<and> marker_count ''t1_c1'' (pending (snd (extract_subskirmish (ex_ctx\<lparr>reddit_get_info := (\<lambda>pid. Inr (Some ex_foreign_reply))\<rparr>) ex_battle
        (snd (extract_subskirmish (ex_ctx\<lparr>reddit_get_info := (\<lambda>pid. Inr (Some ex_foreign_reply))\<rparr>) ex_battle
           (ex_state ex_db_battle)))))) = 1
   \<and> thing_author ex_deleted_reply = None
   \<and> fetches (snd (extract_subskirmish (ex_ctx\<lparr>reddit_get_info := (\<lambda>pid. Inr (Some ex_deleted_reply))\<rparr>) ex_battle
        (snd (extract_subskirmish (ex_ctx\<lparr>reddit_get_info := (\<lambda>pid. Inr (Some ex_deleted_reply))\<rparr>) ex_battle
           (ex_state ex_db_battle))))) = [''t1_c1'', ''t1_c1'']
   \<and> reddit_get_info (ex_ctx\<lparr>reddit_get_info := (\<lambda>pid. Inl Timeout)\<rparr>) ''t1_c1'' = Inl Timeout
   \<and> pending (snd (extract_subskirmish (ex_ctx\<lparr>reddit_get_info := (\<lambda>pid. Inl Timeout)\<rparr>) ex_battle
        (ex_state ex_db_battle))) = ex_db_battle
   \<and> fetches (snd (extract_subskirmish (ex_ctx\<lparr>reddit_get_info := (\<lambda>pid. Inl Timeout)\<rparr>) ex_battle
        (snd (extract_subskirmish (ex_ctx\<lparr>reddit_get_info := (\<lambda>pid. Inl Timeout)\<rparr>) ex_battle
           (ex_state ex_db_battle))))) = [''t1_c1'', ''t1_c1'']"
proof -
  let ?c = "ex_ctx\<lparr>reddit_get_info := (\<lambda>pid. Inr (Some ex_foreign_reply))\<rparr>"
  let ?d = "ex_ctx\<lparr>reddit_get_info := (\<lambda>pid. Inr (Some ex_deleted_reply))\<rparr>"
  let ?t = "ex_ctx\<lparr>reddit_get_info := (\<lambda>pid. Inl Timeout)\<rparr>"
  let ?s = "ex_state ex_db_battle"
  have pid: "parent_id (comment ?c) = ''t1_c1''" "parent_id (comment ?d) = ''t1_c1''"
    "parent_id (comment ?t) = ''t1_c1''" by code_simp+
  have h1: "comment_author (comment ?c) \<noteq> None" "comment_author (comment ?d) \<noteq> None"
    "comment_author (comment ?t) \<noteq> None" by code_simp+
  have h2: "marker_count ''t1_c1'' (pending ?s) = 0" by code_simp
  have h3: "reddit_get_info ?c ''t1_c1'' = Inr (Some ex_foreign_reply)"
    "reddit_get_info ?d ''t1_c1'' = Inr (Some ex_deleted_reply)"
    "reddit_get_info ?t ''t1_c1'' = Inl Timeout" by simp_all
  have h4: "thing_name ex_foreign_reply = ''t1_c1''" by code_simp
  have h5: "thing_author ex_foreign_reply = Some ''bystander''" by code_simp
  have h6: "''bystander'' \<noteq> username (config ?c)" by code_simp
  have h7: "thing_author ex_deleted_reply = None" by code_simp
  have h8: "pending ?s = ex_db_battle" "fetches ?s = []" by (simp_all add: ex_state_def)
  have f1: "fetches (snd (extract_subskirmish ?c ex_battle ?s)) = [''t1_c1'']" by code_simp
  note th = reconcile_marked_parent_short_circuits [of ?c ?c ?s ex_battle ex_foreign_reply "''bystander''" ex_battle,
      unfolded pid]
  from th h1 h2 h3 h4 h5 h6
  have r: "marker_count ''t1_c1'' (pending (snd (extract_subskirmish ?c ex_battle ?s))) = 1
        \<and> extract_subskirmish ?c ex_battle (snd (extract_subskirmish ?c ex_battle ?s))
            = (Inr None, snd (extract_subskirmish ?c ex_battle ?s))"
    by blast
  then have r1: "snd (extract_subskirmish ?c ex_battle (snd (extract_subskirmish ?c ex_battle ?s)))
              = snd (extract_subskirmish ?c ex_battle ?s)" by simp
  note td = reconcile_marked_parent_short_circuits [of ?d ?d ?s ex_battle ex_deleted_reply _ ex_battle Timeout,
      unfolded pid]
  from td h1 h2 h3 h7
  have r2: "fetches (snd (extract_subskirmish ?d ex_battle (snd (extract_subskirmish ?d ex_battle ?s))))
              = fetches ?s @ [''t1_c1'', ''t1_c1'']"
    by blast
  note tt = reconcile_marked_parent_short_circuits [of ?t ?t ?s ex_battle ex_deleted_reply _ ex_battle Timeout,
      unfolded pid]
  from tt h1 h2 h3
  have r3: "pending (snd (extract_subskirmish ?t ex_battle ?s)) = pending ?s
          \<and> fetches (snd (extract_subskirmish ?t ex_battle (snd (extract_subskirmish ?t ex_battle ?s))))
              = fetches ?s @ [''t1_c1'', ''t1_c1'']"
    by blast
  show ?thesis using r r1 f1 h2 h3 h7 r2 r3 by (simp add: h8)
qed

text \<open>
  Claim C3, as stated, says that the second attempt always returns no match without a
  fetch. A parent written by the bot itself is never marked: both attempts fetch it, and
  both return the skirmish id its text names.
\<close>

theorem reconcile_own_reply_is_fetched_again:
  "\<not> (fst (extract_subskirmish (ex_ctx\<lparr>reddit_get_info := (\<lambda>pid. Inr (Some ex_own_reply))\<rparr>) ex_battle
             (snd (extract_subskirmish (ex_ctx\<lparr>reddit_get_info := (\<lambda>pid. Inr (Some ex_own_reply))\<rparr>) ex_battle
                (ex_state ex_db_battle)))) = Inr None
      \<and> fetches (snd (extract_subskirmish (ex_ctx\<lparr>reddit_get_info := (\<lambda>pid. Inr (Some ex_own_reply))\<rparr>) ex_battle
             (snd (extract_subskirmish (ex_ctx\<lparr>reddit_get_info := (\<lambda>pid. Inr (Some ex_own_reply))\<rparr>) ex_battle
                (ex_state ex_db_battle)))))
          = fetches (snd (extract_subskirmish (ex_ctx\<lparr>reddit_get_info := (\<lambda>pid. Inr (Some ex_own_reply))\<rparr>) ex_battle
                (ex_state ex_db_battle))))"
proof -
  let ?c = "ex_ctx\<lparr>reddit_get_info := (\<lambda>pid. Inr (Some ex_own_reply))\<rparr>"
  have "fst (extract_subskirmish ?c ex_battle (snd (extract_subskirmish ?c ex_battle (ex_state ex_db_battle))))
          = Inr (Some 7)" by code_simp
  then show ?thesis by simp
qed

lemma reconcile_own_reply_fetch_log:
  "fetches (snd (extract_subskirmish (ex_ctx\<lparr>reddit_get_info := (\<lambda>pid. Inr (Some ex_own_reply))\<rparr>) ex_battle
             (snd (extract_subskirmish (ex_ctx\<lparr>reddit_get_info := (\<lambda>pid. Inr (Some ex_own_reply))\<rparr>) ex_battle
                (ex_state ex_db_battle))))) = [''t1_c1'', ''t1_c1'']"
  by code_simp

lemma find_by_id_fetches [simp]:
  "find_skirmish_by_id n (s\<lparr>fetches := f\<rparr>) = find_skirmish_by_id n s"
  by (simp add: find_skirmish_by_id_def)

lemma find_parent_untracked:
  assumes "find_skirmish_named (parent_id (comment ctx)) s = None"
      and "extract_subskirmish ctx btl s = (Inr sub, s1)"
  shows "find_parent ctx btl s =
           (case (case sub of None \<Rightarrow> None
                  | Some n \<Rightarrow> if n \<noteq> 0 then find_skirmish_by_id n s1 else None) of
              Some parent \<Rightarrow> (Inr (Some parent), s1)
            | None \<Rightarrow>
                (case reply ctx (''You can only use skirmish commands in ''
                                     @ ''reply to other confirmed skirmish ''
                                     @ ''commands'') s1 of
                   (Inl e, s2) \<Rightarrow> (Inl e, s2)
                 | (Inr v, s2) \<Rightarrow> (Inr None, s2)))"
  using assms by (simp add: find_parent_def)

lemma find_parent_resolves:
  assumes "find_skirmish_named (parent_id (comment ctx)) s = None"
      and "extract_subskirmish ctx btl s = (Inr sub, s1)"
  shows "fst (find_parent ctx btl s) = Inr (Some p) \<longleftrightarrow>
           (\<exists>n. sub = Some n \<and> n \<noteq> 0 \<and> find_skirmish_by_id n s1 = Some p)"
  by (auto simp add: find_parent_untracked [OF assms]
        split: option.splits prod.splits sum.splits if_splits)

text \<open>
  Claim C2, as amended. The reacting comment's parent is not a tracked skirmish action,
  the comment has an author, the parent is not in the Processed log and the platform
  returns it. When the parent has an author who is not the bot, a Processed marker with
  the parent's name and the battle is appended and committed, and the reconciliation
  yields no parent. When the parent has no author, nothing is written and the
  reconciliation yields no parent. When the author is the bot, nothing is written and
  the extraction never raises; it yields \<open>n\<close> exactly when \<open>n\<close> is the number of the
  leftmost marker \<^verbatim>\<open>(subskirmish N)\<close> of the text, or the text has no such marker and
  \<open>n\<close> is the number of its leftmost marker \<^verbatim>\<open>Skirmish #N*\<close>. The parent found is the
  skirmish action with the extracted id, for an id other than 0; the id 0 fails the
  truth test \<^verbatim>\<open>if sub:\<close> and is not looked up.
\<close>

theorem reconcile_untracked_parent:
  assumes untracked: "find_skirmish_named (parent_id (comment ctx)) s = None"
      and author: "comment_author (comment ctx) \<noteq> None"
      and fresh: "marker_count (parent_id (comment ctx)) (pending s) = 0"
      and fetched: "reddit_get_info ctx (parent_id (comment ctx)) = Inr (Some parent)"
  shows "(\<forall>a. thing_author parent = Some a \<and> a \<noteq> username (config ctx) \<longrightarrow>
            fst (extract_subskirmish ctx btl s) = Inr None
          \<and> processed_log (pending (snd (extract_subskirmish ctx btl s))) =
              processed_log (pending s) @ [\<lparr>id36 = thing_name parent, processed_battle = battle_id btl\<rparr>]
          \<and> committed (snd (extract_subskirmish ctx btl s)) = pending (snd (extract_subskirmish ctx btl s))
          \<and> commits (snd (extract_subskirmish ctx btl s)) = Suc (commits s)
          \<and> (\<forall>p. fst (find_parent ctx btl s) \<noteq> Inr (Some p)))
       \<and> (thing_author parent = None \<longrightarrow>
            fst (extract_subskirmish ctx btl s) = Inr None
          \<and> pending (snd (extract_subskirmish ctx btl s)) = pending s
          \<and> committed (snd (extract_subskirmish ctx btl s)) = committed s
          \<and> commits (snd (extract_subskirmish ctx btl s)) = commits s
          \<and> (\<forall>p. fst (find_parent ctx btl s) \<noteq> Inr (Some p)))
       \<and> (thing_author parent = Some (username (config ctx)) \<longrightarrow>
            (\<exists>r. fst (extract_subskirmish ctx btl s) = Inr r)
          \<and> pending (snd (extract_subskirmish ctx btl s)) = pending s
          \<and> committed (snd (extract_subskirmish ctx btl s)) = committed s
          \<and> commits (snd (extract_subskirmish ctx btl s)) = commits s
          \<and> (\<forall>n. fst (extract_subskirmish ctx btl s) = Inr (Some n) \<longleftrightarrow>
                 (\<exists>k ds. marker_at ''(subskirmish '' '')'' (thing_body parent) k ds \<and> n = int_of_digits ds
                         \<and> (\<forall>k' ds'. marker_at ''(subskirmish '' '')'' (thing_body parent) k' ds' \<longrightarrow> k \<le> k'))
               \<or> ((\<forall>k ds. \<not> marker_at ''(subskirmish '' '')'' (thing_body parent) k ds)
                  \<and> (\<exists>k ds. marker_at ''Skirmish #'' ''*'' (thing_body parent) k ds \<and> n = int_of_digits ds
                            \<and> (\<forall>k' ds'. marker_at ''Skirmish #'' ''*'' (thing_body parent) k' ds' \<longrightarrow> k \<le> k'))))
          \<and> (\<forall>p. fst (find_parent ctx btl s) = Inr (Some p) \<longleftrightarrow>
                 (\<exists>n. fst (extract_subskirmish ctx btl s) = Inr (Some n) \<and> n \<noteq> 0
                      \<and> find_skirmish_by_id n s = Some p)))"
proof -
  let ?e = "extract_subskirmish ctx btl s"
  have foreign: "\<forall>a. thing_author parent = Some a \<and> a \<noteq> username (config ctx) \<longrightarrow>
            fst ?e = Inr None
          \<and> processed_log (pending (snd ?e)) =
              processed_log (pending s) @ [\<lparr>id36 = thing_name parent, processed_battle = battle_id btl\<rparr>]
          \<and> committed (snd ?e) = pending (snd ?e)
          \<and> commits (snd ?e) = Suc (commits s)
          \<and> (\<forall>p. fst (find_parent ctx btl s) \<noteq> Inr (Some p))"
  proof (intro allI impI)
    fix a assume h: "thing_author parent = Some a \<and> a \<noteq> username (config ctx)"
    then have pa: "thing_author parent = Some a" and na: "a \<noteq> username (config ctx)" by simp_all
    note e = extract_foreign [OF author fresh fetched pa na, of btl]
    have "\<forall>p. fst (find_parent ctx btl s) \<noteq> Inr (Some p)"
      by (simp add: find_parent_resolves [OF untracked e])
    then show "fst ?e = Inr None
          \<and> processed_log (pending (snd ?e)) =
              processed_log (pending s) @ [\<lparr>id36 = thing_name parent, processed_battle = battle_id btl\<rparr>]
          \<and> committed (snd ?e) = pending (snd ?e)
          \<and> commits (snd ?e) = Suc (commits s)
          \<and> (\<forall>p. fst (find_parent ctx btl s) \<noteq> Inr (Some p))"
      by (simp add: e commit_def add_processed_def)
  qed
  have deleted: "thing_author parent = None \<longrightarrow>
            fst ?e = Inr None
          \<and> pending (snd ?e) = pending s
          \<and> committed (snd ?e) = committed s
          \<and> commits (snd ?e) = commits s
          \<and> (\<forall>p. fst (find_parent ctx btl s) \<noteq> Inr (Some p))"
  proof
    assume pa: "thing_author parent = None"
    note e = extract_deleted [OF author fresh fetched pa, of btl]
    have "\<forall>p. fst (find_parent ctx btl s) \<noteq> Inr (Some p)"
      by (simp add: find_parent_resolves [OF untracked e])
    then show "fst ?e = Inr None
          \<and> pending (snd ?e) = pending s
          \<and> committed (snd ?e) = committed s
          \<and> commits (snd ?e) = commits s
          \<and> (\<forall>p. fst (find_parent ctx btl s) \<noteq> Inr (Some p))"
      by (simp add: e)
  qed
  have own: "thing_author parent = Some (username (config ctx)) \<longrightarrow>
            (\<exists>r. fst ?e = Inr r)
          \<and> pending (snd ?e) = pending s
          \<and> committed (snd ?e) = committed s
          \<and> commits (snd ?e) = commits s
          \<and> (\<forall>n. fst ?e = Inr (Some n) \<longleftrightarrow>
                 (\<exists>k ds. marker_at ''(subskirmish '' '')'' (thing_body parent) k ds \<and> n = int_of_digits ds
                         \<and> (\<forall>k' ds'. marker_at ''(subskirmish '' '')'' (thing_body parent) k' ds' \<longrightarrow> k \<le> k'))
               \<or> ((\<forall>k ds. \<not> marker_at ''(subskirmish '' '')'' (thing_body parent) k ds)
                  \<and> (\<exists>k ds. marker_at ''Skirmish #'' ''*'' (thing_body parent) k ds \<and> n = int_of_digits ds
                            \<and> (\<forall>k' ds'. marker_at ''Skirmish #'' ''*'' (thing_body parent) k' ds' \<longrightarrow> k \<le> k'))))
          \<and> (\<forall>p. fst (find_parent ctx btl s) = Inr (Some p) \<longleftrightarrow>
                 (\<exists>n. fst ?e = Inr (Some n) \<and> n \<noteq> 0 \<and> find_skirmish_by_id n s = Some p))"
  proof
    assume pa: "thing_author parent = Some (username (config ctx))"
    note e = extract_own [OF author fresh fetched pa, of btl]
    have f: "fst ?e = Inr (marker_id (thing_body parent))" by (simp add: e)
    have o1: "\<exists>r. fst ?e = Inr r" using f by blast
    have o2: "pending (snd ?e) = pending s" "committed (snd ?e) = committed s"
      "commits (snd ?e) = commits s" by (simp_all add: e)
    have o3: "\<forall>n. fst ?e = Inr (Some n) \<longleftrightarrow>
                 (\<exists>k ds. marker_at ''(subskirmish '' '')'' (thing_body parent) k ds \<and> n = int_of_digits ds
                         \<and> (\<forall>k' ds'. marker_at ''(subskirmish '' '')'' (thing_body parent) k' ds' \<longrightarrow> k \<le> k'))
               \<or> ((\<forall>k ds. \<not> marker_at ''(subskirmish '' '')'' (thing_body parent) k ds)
                  \<and> (\<exists>k ds. marker_at ''Skirmish #'' ''*'' (thing_body parent) k ds \<and> n = int_of_digits ds
                            \<and> (\<forall>k' ds'. marker_at ''Skirmish #'' ''*'' (thing_body parent) k' ds' \<longrightarrow> k \<le> k')))"
      unfolding f sum.inject by (intro allI) (rule marker_id_markers)
    have o4: "\<forall>p. fst (find_parent ctx btl s) = Inr (Some p) \<longleftrightarrow>
                 (\<exists>n. fst ?e = Inr (Some n) \<and> n \<noteq> 0 \<and> find_skirmish_by_id n s = Some p)"
      unfolding f sum.inject by (simp add: find_parent_resolves [OF untracked e])
    show "(\<exists>r. fst ?e = Inr r)
          \<and> pending (snd ?e) = pending s
          \<and> committed (snd ?e) = committed s
          \<and> commits (snd ?e) = commits s
          \<and> (\<forall>n. fst ?e = Inr (Some n) \<longleftrightarrow>
                 (\<exists>k ds. marker_at ''(subskirmish '' '')'' (thing_body parent) k ds \<and> n = int_of_digits ds
                         \<and> (\<forall>k' ds'. marker_at ''(subskirmish '' '')'' (thing_body parent) k' ds' \<longrightarrow> k \<le> k'))
               \<or> ((\<forall>k ds. \<not> marker_at ''(subskirmish '' '')'' (thing_body parent) k ds)
                  \<and> (\<exists>k ds. marker_at ''Skirmish #'' ''*'' (thing_body parent) k ds \<and> n = int_of_digits ds
                            \<and> (\<forall>k' ds'. marker_at ''Skirmish #'' ''*'' (thing_body parent) k' ds' \<longrightarrow> k \<le> k'))))
          \<and> (\<forall>p. fst (find_parent ctx btl s) = Inr (Some p) \<longleftrightarrow>
                 (\<exists>n. fst ?e = Inr (Some n) \<and> n \<noteq> 0 \<and> find_skirmish_by_id n s = Some p))"
      using o1 o2 o3 o4 by blast
  qed
  show ?thesis using foreign deleted own by blast
qed

theorem reconcile_untracked_parent_witness:
  "find_skirmish_named ''t1_c1'' (ex_state ex_db_battle) = None
   \<and> thing_author ex_own_reply = Some (username (config ex_ctx))
   \<and> marker_at ''(subskirmish '' '')'' (thing_body ex_own_reply) 86 ''7''
   \<and> int_of_digits ''7'' = 7
   \<and> fst (find_parent (ex_ctx\<lparr>reddit_get_info := (\<lambda>pid. Inr (Some ex_own_reply))\<rparr>) ex_battle
            (ex_state ex_db_battle)) = Inr (Some ex_sk7)
   \<and> processed_log (pending (snd (extract_subskirmish
        (ex_ctx\<lparr>reddit_get_info := (\<lambda>pid. Inr (Some ex_foreign_reply))\<rparr>) ex_battle
        (ex_state ex_db_battle)))) = [\<lparr>id36 = ''t1_c1'', processed_battle = 1\<rparr>]"
proof -
  let ?own = "ex_ctx\<lparr>reddit_get_info := (\<lambda>pid. Inr (Some ex_own_reply))\<rparr>"
  let ?for = "ex_ctx\<lparr>reddit_get_info := (\<lambda>pid. Inr (Some ex_foreign_reply))\<rparr>"
  let ?s = "ex_state ex_db_battle"
  have u: "find_skirmish_named ''t1_c1'' ?s = None" by code_simp
  have u1: "find_skirmish_named (parent_id (comment ?own)) ?s = None" by code_simp
  have u2: "find_skirmish_named (parent_id (comment ?for)) ?s = None" by code_simp
  have a1: "comment_author (comment ?own) \<noteq> None" by code_simp
  have a2: "comment_author (comment ?for) \<noteq> None" by code_simp
  have c1: "marker_count (parent_id (comment ?own)) (pending ?s) = 0" by code_simp
  have c2: "marker_count (parent_id (comment ?for)) (pending ?s) = 0" by code_simp
  have g1: "reddit_get_info ?own (parent_id (comment ?own)) = Inr (Some ex_own_reply)" by simp
  have g2: "reddit_get_info ?for (parent_id (comment ?for)) = Inr (Some ex_foreign_reply)" by simp
  have p1: "thing_author ex_own_reply = Some (username (config ?own))" by code_simp
  have p2: "thing_author ex_foreign_reply = Some ''bystander''" by code_simp
  have n2: "''bystander'' \<noteq> username (config ?for)" by code_simp
  have n3: "thing_author ex_own_reply = Some (username (config ex_ctx))" by code_simp
  have m: "fst (extract_subskirmish ?own ex_battle ?s) = Inr (Some 7)" by code_simp
  have m': "marker_at ''(subskirmish '' '')'' (thing_body ex_own_reply) 86 ''7''"
           "int_of_digits ''7'' = 7" by code_simp+
  have l: "find_skirmish_by_id 7 ?s = Some ex_sk7" by code_simp
  have z: "(7::int) \<noteq> 0" by simp
  have b: "battle_id ex_battle = 1" "thing_name ex_foreign_reply = ''t1_c1''"
          "processed_log (pending ?s) = []" by code_simp+
  note own = reconcile_untracked_parent [OF u1 a1 c1 g1, of ex_battle]
  note foreign = reconcile_untracked_parent [OF u2 a2 c2 g2, of ex_battle]
  from own p1 m l z have r1: "fst (find_parent ?own ex_battle ?s) = Inr (Some ex_sk7)" by blast
  from foreign p2 n2 have r2: "processed_log (pending (snd (extract_subskirmish ?for ex_battle ?s))) =
        processed_log (pending ?s) @ [\<lparr>id36 = thing_name ex_foreign_reply, processed_battle = battle_id ex_battle\<rparr>]"
    by blast
  show ?thesis using u n3 m' r1 r2 by (simp add: b)
qed

text \<open>
  Claim C2, as stated, has a marker recorded whenever the author of the fetched parent is
  not the bot. A deleted parent is fetched and has no author, so its author is not the
  bot; the reconciliation fails and records nothing.
\<close>

theorem reconcile_deleted_parent_leaves_no_marker:
  "find_skirmish_named ''t1_c1'' (ex_state ex_db_battle) = None
   \<and> thing_author ex_deleted_reply \<noteq> Some (username (config ex_ctx))
   \<and> fst (extract_subskirmish (ex_ctx\<lparr>reddit_get_info := (\<lambda>pid. Inr (Some ex_deleted_reply))\<rparr>) ex_battle
            (ex_state ex_db_battle)) = Inr None
   \<and> fetches (snd (extract_subskirmish (ex_ctx\<lparr>reddit_get_info := (\<lambda>pid. Inr (Some ex_deleted_reply))\<rparr>) ex_battle
            (ex_state ex_db_battle))) = [''t1_c1'']
   \<and> processed_log (pending (snd (extract_subskirmish (ex_ctx\<lparr>reddit_get_info := (\<lambda>pid. Inr (Some ex_deleted_reply))\<rparr>) ex_battle
            (ex_state ex_db_battle)))) = []
   \<and> commits (snd (extract_subskirmish (ex_ctx\<lparr>reddit_get_info := (\<lambda>pid. Inr (Some ex_deleted_reply))\<rparr>) ex_battle
            (ex_state ex_db_battle))) = 0"
proof -
  let ?del = "ex_ctx\<lparr>reddit_get_info := (\<lambda>pid. Inr (Some ex_deleted_reply))\<rparr>"
  let ?s = "ex_state ex_db_battle"
  have 1: "find_skirmish_named ''t1_c1'' ?s = None" by code_simp
  have 2: "thing_author ex_deleted_reply \<noteq> Some (username (config ex_ctx))" by code_simp
  have 3: "fst (extract_subskirmish ?del ex_battle ?s) = Inr None" by code_simp
  have 4: "fetches (snd (extract_subskirmish ?del ex_battle ?s)) = [''t1_c1'']" by code_simp
  have 5: "processed_log (pending (snd (extract_subskirmish ?del ex_battle ?s))) = []" by code_simp
  have 6: "commits (snd (extract_subskirmish ?del ex_battle ?s)) = 0" by code_simp
  show ?thesis using 1 2 3 4 5 6 by blast
qed

subsection \<open>The confirmation and its markers\<close>

lemma confirmation_child:
  assumes id: "0 \<le> sk_id sk"
      and tt: "CHR ''('' \<notin> set (sk_troop_type sk)"
      and child: "sk_id (get_root api d sk) \<noteq> sk_id sk"
  shows "search_subskirmish (confirmation_text api d sk tot tm) = Some (sk_id sk)"
proof -
  let ?X = "''**Confirmed**: You have committed '' @ fmt_d (sk_amount sk) @ '' of your forces as **''
            @ sk_troop_type sk @ ''** to **Skirmish #'' @ fmt_d (sk_id (get_root api d sk)) @ ''** ''"
  let ?rest = "''.\<newline>\<newline>As of now, you have committed '' @ fmt_d tot @ '' total.  **For ''
               @ num_to_team api tm @ ''!**''"
  have t: "confirmation_text api d sk tot tm
           = ?X @ (''(subskirmish '' @ fmt_d (sk_id sk) @ CHR '')'' # ?rest)"
    using child by (simp add: confirmation_text_def)
  have x: "\<forall>c\<in>set ?X. c \<noteq> CHR ''(''"
    using tt by (auto dest: fmt_d_not)
  have p: "\<not> is_digit (CHR '')'')" by (simp add: is_digit_def)
  have "re_search ''(subskirmish '' '')'' (?X @ (''(subskirmish '' @ fmt_d (sk_id sk) @ CHR '')'' # ?rest))
        = re_search ''(subskirmish '' '')'' (''(subskirmish '' @ fmt_d (sk_id sk) @ CHR '')'' # ?rest)"
    using x by (rule re_search_skip_chars)
  also have "\<dots> = Some (sk_id sk)" using id p by (rule re_search_number)
  finally show ?thesis unfolding search_subskirmish_def t .
qed

lemma confirmation_root:
  assumes id: "0 \<le> sk_id sk"
      and tt1: "CHR ''('' \<notin> set (sk_troop_type sk)"
      and tt2: "CHR ''#'' \<notin> set (sk_troop_type sk)"
      and team: "CHR ''('' \<notin> set (num_to_team api tm)"
      and root: "sk_id (get_root api d sk) = sk_id sk"
  shows "search_subskirmish (confirmation_text api d sk tot tm) = None"
    and "search_skirmish (confirmation_text api d sk tot tm) = Some (sk_id sk)"
proof -
  let ?P = "''**Confirmed**: You have committed '' @ fmt_d (sk_amount sk) @ '' of your forces as **''"
  let ?rest = "''*.\<newline>\<newline>As of now, you have committed '' @ fmt_d tot @ '' total.  **For ''
               @ num_to_team api tm @ ''!**''"
  let ?S1 = "''Skirmish #'' @ fmt_d (sk_id sk) @ CHR ''*'' # ?rest"
  let ?S0 = "''** to **'' @ ?S1"
  have "\<forall>c\<in>set (confirmation_text api d sk tot tm). c \<noteq> CHR ''(''"
    using tt1 team root by (auto simp add: confirmation_text_def dest: fmt_d_not)
  then show "search_subskirmish (confirmation_text api d sk tot tm) = None"
    unfolding search_subskirmish_def by (rule re_search_none)
  have t: "confirmation_text api d sk tot tm = ?P @ (sk_troop_type sk @ ?S0)"
    using root by (simp add: confirmation_text_def)
  have p: "\<not> is_digit (CHR ''*'')" by (simp add: is_digit_def)
  have x: "\<forall>c\<in>set ?P. c \<noteq> CHR ''S''" by (auto dest: fmt_d_not)
  have y: "\<forall>c\<in>set ''** to **''. c \<noteq> CHR ''S''" by simp
  have "re_search ''Skirmish #'' ''*'' (?P @ (sk_troop_type sk @ ?S0))
        = re_search ''Skirmish #'' ''*'' (sk_troop_type sk @ ?S0)"
    using x by (rule re_search_skip_chars)
  also have "\<dots> = re_search ''Skirmish #'' ''*'' ?S0"
    using tt2 by (intro re_search_skip_word) simp_all
  also have "\<dots> = re_search ''Skirmish #'' ''*'' ?S1"
    using y by (rule re_search_skip_chars)
  also have "\<dots> = Some (sk_id sk)" using id p by (rule re_search_number)
  finally show "search_skirmish (confirmation_text api d sk tot tm) = Some (sk_id sk)"
    unfolding search_skirmish_def t .
qed

lemma skirmish_try_reply:
  assumes "skirmish_action_for api cmd ctx current s = (Inr (Some sk), s1)"
  shows "replies (snd (skirmish_try api cmd ctx current s))
         = replies s1 @ [confirmation_text api (pending s1) sk (committed_loyalists (player (pending s1)))
                           (team (player (pending s1)))]"
  using assms
  by (auto simp add: skirmish_try_def Let_def commit_def split: prod.splits sum.splits
        dest!: reply_result)

text \<open>
  Claim C4. The text of a confirmation is searched as the reconciliation searches a
  parent. For a reaction, whose root is another skirmish action, the subskirmish pattern
  matches and yields the id of the reaction. For a root, the subskirmish pattern does
  not match and the skirmish pattern yields the id of the root. In both cases the
  extraction yields the id of the skirmish action the reply confirms. The reply of the
  handler for a new skirmish action is such a text, and the reconciliation of a comment
  whose parent is that reply of the bot yields the id. Ids are not negative, the troop
  type holds no opening parenthesis and no number sign, and the name of the team holds
  no opening parenthesis.
\<close>

theorem confirmation_round_trip:
  assumes id: "0 \<le> sk_id sk"
      and tt1: "CHR ''('' \<notin> set (sk_troop_type sk)"
      and tt2: "CHR ''#'' \<notin> set (sk_troop_type sk)"
      and team: "CHR ''('' \<notin> set (num_to_team api tm)"
  shows "marker_id (confirmation_text api d sk tot tm) = Some (sk_id sk)
       \<and> (sk_id (get_root api d sk) \<noteq> sk_id sk \<longrightarrow>
            search_subskirmish (confirmation_text api d sk tot tm) = Some (sk_id sk))
       \<and> (sk_id (get_root api d sk) = sk_id sk \<longrightarrow>
            search_subskirmish (confirmation_text api d sk tot tm) = None
          \<and> search_skirmish (confirmation_text api d sk tot tm) = Some (sk_id (get_root api d sk)))
       \<and> (skirmish_action_for api cmd ctx current s = (Inr (Some sk), s1)
          \<and> d = pending s1 \<and> tot = committed_loyalists (player (pending s1))
          \<and> tm = team (player (pending s1)) \<longrightarrow>
            replies (snd (skirmish_try api cmd ctx current s))
              = replies s1 @ [confirmation_text api d sk tot tm])
       \<and> (comment_author (comment ctx2) \<noteq> None
          \<and> marker_count (parent_id (comment ctx2)) (pending s2) = 0
          \<and> reddit_get_info ctx2 (parent_id (comment ctx2)) = Inr (Some parent)
          \<and> thing_author parent = Some (username (config ctx2))
          \<and> thing_body parent = confirmation_text api d sk tot tm \<longrightarrow>
            fst (extract_subskirmish ctx2 btl s2) = Inr (Some (sk_id sk)))"
proof -
  let ?text = "confirmation_text api d sk tot tm"
  have m: "marker_id ?text = Some (sk_id sk)"
   and c: "sk_id (get_root api d sk) \<noteq> sk_id sk \<longrightarrow> search_subskirmish ?text = Some (sk_id sk)"
   and r: "sk_id (get_root api d sk) = sk_id sk \<longrightarrow>
            search_subskirmish ?text = None
          \<and> search_skirmish ?text = Some (sk_id (get_root api d sk))"
  proof -
    show "marker_id ?text = Some (sk_id sk)"
    proof (cases "sk_id (get_root api d sk) = sk_id sk")
      case True
      then show ?thesis
        using confirmation_root [OF id tt1 tt2 team True, of tot] by (simp add: marker_id_def)
    next
      case False
      then show ?thesis
        using confirmation_child [OF id tt1 False, of tot tm] by (simp add: marker_id_def)
    qed
    show "sk_id (get_root api d sk) \<noteq> sk_id sk \<longrightarrow> search_subskirmish ?text = Some (sk_id sk)"
      using confirmation_child [OF id tt1, of api d tot tm] by blast
    show "sk_id (get_root api d sk) = sk_id sk \<longrightarrow>
            search_subskirmish ?text = None
          \<and> search_skirmish ?text = Some (sk_id (get_root api d sk))"
      using confirmation_root [OF id tt1 tt2 team, of d tot] by simp
  qed
  have h: "skirmish_action_for api cmd ctx current s = (Inr (Some sk), s1)
          \<and> d = pending s1 \<and> tot = committed_loyalists (player (pending s1))
          \<and> tm = team (player (pending s1)) \<longrightarrow>
            replies (snd (skirmish_try api cmd ctx current s)) = replies s1 @ [?text]"
    using skirmish_try_reply [of api cmd ctx current s sk s1] by simp
  have e: "comment_author (comment ctx2) \<noteq> None
          \<and> marker_count (parent_id (comment ctx2)) (pending s2) = 0
          \<and> reddit_get_info ctx2 (parent_id (comment ctx2)) = Inr (Some parent)
          \<and> thing_author parent = Some (username (config ctx2))
          \<and> thing_body parent = ?text \<longrightarrow>
            fst (extract_subskirmish ctx2 btl s2) = Inr (Some (sk_id sk))"
    using extract_own [of ctx2 s2 parent btl] m by auto
  show ?thesis using m c r h e by blast
qed

theorem confirmation_round_trip_witness:
  "sk_id (get_root (ex_api 1000) ex_db_battle ex_sk7) = 3
   \<and> search_subskirmish (confirmation_text (ex_api 1000) ex_db_battle ex_sk7 10 0) = Some 7
   \<and> marker_id (confirmation_text (ex_api 1000) ex_db_battle ex_sk7 10 0) = Some 7
   \<and> sk_id (get_root (ex_api 1000) ex_db_battle ex_sk3) = 3
   \<and> search_subskirmish (confirmation_text (ex_api 1000) ex_db_battle ex_sk3 30 0) = None
   \<and> marker_id (confirmation_text (ex_api 1000) ex_db_battle ex_sk3 30 0) = Some 3
   \<and> fst (extract_subskirmish (ex_ctx\<lparr>reddit_get_info := (\<lambda>pid. Inr (Some ex_own_reply))\<rparr>) ex_battle
            (ex_state ex_db_battle)) = Inr (Some 7)
   \<and> fst (skirmish_action_for ex_api_react ex_cmd
            (ex_ctx\<lparr>reddit_get_info := (\<lambda>pid. Inr (Some ex_own_reply))\<rparr>) ex_battle
            (ex_state ex_db_battle)) = Inr (Some ex_sk8)
   \<and> marker_id (last (replies (snd (skirmish_try ex_api_react ex_cmd
            (ex_ctx\<lparr>reddit_get_info := (\<lambda>pid. Inr (Some ex_own_reply))\<rparr>) ex_battle
            (ex_state ex_db_battle))))) = Some 8"
proof -
  let ?own = "ex_ctx\<lparr>reddit_get_info := (\<lambda>pid. Inr (Some ex_own_reply))\<rparr>"
  let ?s = "ex_state ex_db_battle"
  let ?s1 = "snd (skirmish_action_for ex_api_react ex_cmd ?own ex_battle ?s)"
  have i7: "0 \<le> sk_id ex_sk7" and i3: "0 \<le> sk_id ex_sk3" and i8: "0 \<le> sk_id ex_sk8"
    by code_simp+
  have t7: "CHR ''('' \<notin> set (sk_troop_type ex_sk7)" "CHR ''#'' \<notin> set (sk_troop_type ex_sk7)"
    by code_simp+
  have t3: "CHR ''('' \<notin> set (sk_troop_type ex_sk3)" "CHR ''#'' \<notin> set (sk_troop_type ex_sk3)"
    by code_simp+
  have t8: "CHR ''('' \<notin> set (sk_troop_type ex_sk8)" "CHR ''#'' \<notin> set (sk_troop_type ex_sk8)"
    by code_simp+
  have tm: "CHR ''('' \<notin> set (num_to_team (ex_api 1000) 0)" by code_simp
  have tm8: "CHR ''('' \<notin> set (num_to_team ex_api_react (team (player (pending ?s1))))"
    by code_simp
  have r7: "sk_id (get_root (ex_api 1000) ex_db_battle ex_sk7) = 3" by code_simp
  have r3: "sk_id (get_root (ex_api 1000) ex_db_battle ex_sk3) = 3" by code_simp
  have v: "sk_id ex_sk7 = 7" "sk_id ex_sk3 = 3" "sk_id ex_sk8 = 8" by code_simp+
  have a: "comment_author (comment ?own) \<noteq> None" by code_simp
  have c: "marker_count (parent_id (comment ?own)) (pending ?s) = 0" by code_simp
  have g: "reddit_get_info ?own (parent_id (comment ?own)) = Inr (Some ex_own_reply)" by simp
  have p: "thing_author ex_own_reply = Some (username (config ?own))" by code_simp
  have b: "thing_body ex_own_reply = confirmation_text (ex_api 1000) ex_db_battle ex_sk7 10 0"
    by (simp add: ex_own_reply_def)
  have f: "fst (skirmish_action_for ex_api_react ex_cmd ?own ex_battle ?s) = Inr (Some ex_sk8)"
    by code_simp
  then have f': "skirmish_action_for ex_api_react ex_cmd ?own ex_battle ?s = (Inr (Some ex_sk8), ?s1)"
    by (metis prod.collapse)
  note c7 = confirmation_round_trip [OF i7 t7 tm, where d = ex_db_battle and tot = 10
      and ?ctx2.0 = ?own and ?s2.0 = ?s and parent = ex_own_reply and btl = ex_battle, unfolded r7 v]
  note c3 = confirmation_round_trip [OF i3 t3 tm, where d = ex_db_battle and tot = 30, unfolded r3 v]
  note c8 = confirmation_round_trip [OF i8 t8 tm8, where d = "pending ?s1"
      and tot = "committed_loyalists (player (pending ?s1))" and cmd = ex_cmd and ctx = ?own
      and current = ex_battle and s = ?s and ?s1.0 = ?s1, unfolded v]
  from c7 a c g p b
  have e7: "fst (extract_subskirmish ?own ex_battle ?s) = Inr (Some 7)" by blast
  from c8 f'
  have "replies (snd (skirmish_try ex_api_react ex_cmd ?own ex_battle ?s))
          = replies ?s1 @ [confirmation_text ex_api_react (pending ?s1) ex_sk8
                             (committed_loyalists (player (pending ?s1))) (team (player (pending ?s1)))]"
    by blast
  then have "last (replies (snd (skirmish_try ex_api_react ex_cmd ?own ex_battle ?s)))
          = confirmation_text ex_api_react (pending ?s1) ex_sk8
                             (committed_loyalists (player (pending ?s1))) (team (player (pending ?s1)))"
    by simp
  moreover from c8
  have "marker_id (confirmation_text ex_api_react (pending ?s1) ex_sk8
                             (committed_loyalists (player (pending ?s1))) (team (player (pending ?s1)))) = Some 8"
    by blast
  ultimately have e8: "marker_id (last (replies (snd (skirmish_try ex_api_react ex_cmd ?own ex_battle ?s)))) = Some 8"
    by simp
  show ?thesis using c7 c3 r7 r3 e7 f e8 by simp
qed

end
